theory Spec2Isabelle
  imports Complex_Main "HOL-Library.AList" "HOL-Library.Multiset"
begin

section \<open>Data model of server.js\<close>

text \<open>
  The server keeps one process-wide \<^verbatim>\<open>Map\<close> from room code to room object. A JavaScript
  \<^verbatim>\<open>Map\<close> iterates in insertion order, \<^verbatim>\<open>set\<close> on a key that is present replaces the
  value where it stands, and \<^verbatim>\<open>delete\<close> removes the entry. It is modelled as an
  association list: \<open>map_of\<close> is \<^verbatim>\<open>get\<close>, \<open>AList.update\<close> is \<^verbatim>\<open>set\<close>,
  \<open>AList.delete\<close> is \<^verbatim>\<open>delete\<close> and \<open>length\<close> is \<^verbatim>\<open>size\<close>.

  Socket ids, room codes, player ids and answers are strings. JavaScript numbers are
  modelled exactly: counters, scores and millisecond timestamps as \<open>int\<close>, the
  intermediate quotients of the scoring formula and the draws of \<^verbatim>\<open>Math.random()\<close> as
  \<open>rat\<close>. \<^verbatim>\<open>Date.now()\<close> and the random draws are parameters of the functions that read
  them.
\<close>

type_synonym ('k, 'v) js_map = "('k \<times> 'v) list"

definition map_has :: "('k, 'v) js_map \<Rightarrow> 'k \<Rightarrow> bool" where
  "map_has m k = (map_of m k \<noteq> None)"

datatype gameState = LOBBY | PLAYING | ROUND_END

record question =
  q :: string
  a :: string
  choices :: "string list"

record player =
  id_p :: string
  name :: string
  avatar :: string
  socketId :: string
  score :: int

record answer_rec =
  answer :: string
  correct :: bool
  points :: int

record room =
  code :: string
  host :: string
  players :: "(string, player) js_map"
  gameState :: gameState
  currentGame :: "string option"
  currentQuestion :: "question option"
  questionNumber :: int
  buzzedPlayer :: "string option"
  answers :: "(string, answer_rec) js_map"
  questionStartTime :: "int option"

type_synonym registry = "(string, room) js_map"

subsection \<open>Outbound events and timers\<close>

text \<open>
  \<^verbatim>\<open>socket.emit\<close> answers the sender; \<^verbatim>\<open>io.to(x).emit\<close> addresses the channel named
  \<open>x\<close> (a room code, or a socket id, which names that socket's own channel).
  \<^verbatim>\<open>setTimeout(() => nextQuestion(roomCode), d)\<close> is recorded as the pair of the delay
  and the room code the timer will pass to \<open>nextQuestion\<close>. Which sockets have joined
  which channel (\<^verbatim>\<open>socket.join\<close>) is the transport's own state and is not modelled.
\<close>

datatype target = Sender | To string

datatype payload =
    ErrorMsg string
  | CreateReply string
  | PlayerJoined player
  | PlayerList "player list"
  | JoinedRoom string "player list"
  | GameStarted string
  | RoundEnd "player list"
  | NewQuestionHost int question
  | NewQuestionPlayer int string "string list"
  | PlayerBuzzed string string
  | AnswerResult bool int string int
  | AnswerSubmitted string string bool int string
  | RoomClosed
  | PlayerLeft string

type_synonym emit = "target \<times> payload"
type_synonym timer = "nat \<times> string"

record outcome =
  registry :: registry
  emitted :: "emit list"
  scheduled :: "timer list"

definition no_op :: "registry \<Rightarrow> outcome" where
  "no_op rooms = \<lparr>registry = rooms, emitted = [], scheduled = []\<rparr>"

text \<open>
  A handler that reads a property of \<^verbatim>\<open>undefined\<close> throws; the two handlers that look a
  player up with \<^verbatim>\<open>room.players.get\<close> and then read the result have that branch.
\<close>

datatype crash = TypeError

section \<open>The functions of server.js\<close>

definition triviaQuestions :: "question list" where
  "triviaQuestions =
    [\<lparr>q = ''What year did the first iPhone launch?'', a = ''2007'',
       choices = [''2005'', ''2007'', ''2009'', ''2010'']\<rparr>,
     \<lparr>q = ''Which planet is closest to the Sun?'', a = ''Mercury'',
       choices = [''Venus'', ''Mercury'', ''Mars'', ''Earth'']\<rparr>,
     \<lparr>q = ''Who painted the Mona Lisa?'', a = ''Leonardo da Vinci'',
       choices = [''Michelangelo'', ''Leonardo da Vinci'', ''Raphael'', ''Donatello'']\<rparr>,
     \<lparr>q = ''What is the capital of Australia?'', a = ''Canberra'',
       choices = [''Sydney'', ''Melbourne'', ''Canberra'', ''Brisbane'']\<rparr>,
     \<lparr>q = ''How many hearts does an octopus have?'', a = ''3'',
       choices = [''1'', ''2'', ''3'', ''4'']\<rparr>,
     \<lparr>q = ''What is the smallest country in the world?'', a = ''Vatican City'',
       choices = [''Monaco'', ''Vatican City'', ''San Marino'', ''Liechtenstein'']\<rparr>,
     \<lparr>q = ''Which element has the chemical symbol 'Au'?'', a = ''Gold'',
       choices = [''Silver'', ''Gold'', ''Copper'', ''Aluminum'']\<rparr>,
     \<lparr>q = ''How many strings does a standard guitar have?'', a = ''6'',
       choices = [''4'', ''5'', ''6'', ''7'']\<rparr>,
     \<lparr>q = ''What is the tallest mountain in the world?'', a = ''Mount Everest'',
       choices = [''K2'', ''Mount Everest'', ''Kilimanjaro'', ''Denali'']\<rparr>,
     \<lparr>q = ''What year did World War II end?'', a = ''1945'',
       choices = [''1943'', ''1944'', ''1945'', ''1946'']\<rparr>]"

subsection \<open>generateRoomCode and createRoom\<close>

definition adjectives :: "string list" where
  "adjectives = [''COOL'', ''FAST'', ''MEGA'', ''EPIC'', ''WILD'',
                 ''FIRE'', ''STAR'', ''BOLT'', ''DASH'', ''ZOOM'']"

text \<open>
  The template literal prints the integer \<open>num\<close> in decimal. \<open>decimal\<close> peels the
  digits off from the least significant one and conses them onto what is already printed.
\<close>

definition digit_char :: "nat \<Rightarrow> char" where
  "digit_char d = char_of (of_char CHR ''0'' + d)"

fun decimal :: "nat \<Rightarrow> string \<Rightarrow> string" where
  "decimal n printed =
     (let printed' = digit_char (n mod 10) # printed
      in if n div 10 = 0 then printed' else decimal (n div 10) printed')"

definition number_to_string :: "int \<Rightarrow> string" where
  "number_to_string i = (if 0 \<le> i then decimal (nat i) [] else CHR ''-'' # decimal (nat (- i)) [])"

text \<open>
  \<open>r1\<close> and \<open>r2\<close> are the two values \<^verbatim>\<open>Math.random()\<close> returns, each in \<open>[0, 1)\<close>.
  An index past the end of a JavaScript array reads \<^verbatim>\<open>undefined\<close>.
\<close>

definition generateRoomCode :: "rat \<Rightarrow> rat \<Rightarrow> string" where
  "generateRoomCode r1 r2 =
     (let i = nat \<lfloor>r1 * of_nat (length adjectives)\<rfloor>;
          adj = (if i < length adjectives then adjectives ! i else ''undefined'');
          num = \<lfloor>1000 + r2 * 9000\<rfloor>
      in adj @ ''-'' @ number_to_string num)"

definition new_room :: "string \<Rightarrow> string \<Rightarrow> room" where
  "new_room c hostSocketId =
     \<lparr>code = c, host = hostSocketId, players = [], gameState = LOBBY, currentGame = None,
      currentQuestion = None, questionNumber = 0, buzzedPlayer = None, answers = [],
      questionStartTime = None\<rparr>"

definition createRoom :: "rat \<Rightarrow> rat \<Rightarrow> string \<Rightarrow> registry \<Rightarrow> room \<times> registry" where
  "createRoom r1 r2 hostSocketId rooms =
     (let c = generateRoomCode r1 r2;
          room = new_room c hostSocketId
      in (room, AList.update c room rooms))"

text \<open>The \<^verbatim>\<open>create_room\<close> handler; the reply callback is optional.\<close>

definition create_room :: "string \<Rightarrow> bool \<Rightarrow> rat \<Rightarrow> rat \<Rightarrow> registry \<Rightarrow> outcome" where
  "create_room sock callback r1 r2 rooms =
     (let (room, rooms') = createRoom r1 r2 sock rooms
      in \<lparr>registry = rooms',
          emitted = (if callback then [(Sender, CreateReply (code room))] else []),
          scheduled = []\<rparr>)"

subsection \<open>join_room\<close>

text \<open>
  \<^verbatim>\<open>String.prototype.toUpperCase\<close>. On a string of ASCII characters it raises the letters
  \<open>a\<close> to \<open>z\<close> and leaves every other character. On a string with a character outside
  ASCII it applies the Unicode case mapping, which can also change the length of the
  string; that mapping is not defined here and is the parameter \<open>upper\<close> of every
  function that depends on it. The theorems hold for every such mapping.
\<close>

definition upper_char :: "char \<Rightarrow> char" where
  "upper_char c =
     (let n = (of_char c :: nat) in if 97 \<le> n \<and> n \<le> 122 then char_of (n - 32) else c)"

definition toUpperCase :: "(string \<Rightarrow> string) \<Rightarrow> string \<Rightarrow> string" where
  "toUpperCase upper s =
     (if list_all (\<lambda>c. (of_char c :: nat) < 128) s then map upper_char s else upper s)"

text \<open>The default avatar is the game-pad emoji, here its four UTF-8 bytes.\<close>

definition default_avatar :: string where
  "default_avatar = [char_of (240::nat), char_of (159::nat), char_of (142::nat), char_of (174::nat)]"

definition join_room ::
  "(string \<Rightarrow> string) \<Rightarrow> string \<Rightarrow> string \<Rightarrow> string \<Rightarrow> string \<Rightarrow> string \<Rightarrow> registry \<Rightarrow> outcome" where
  "join_room upper sock roomCode playerId playerName avatar_in rooms =
     (case map_of rooms (toUpperCase upper roomCode) of
        None \<Rightarrow> \<lparr>registry = rooms, emitted = [(Sender, ErrorMsg ''Room not found'')],
                 scheduled = []\<rparr>
      | Some room \<Rightarrow>
          (let player = \<lparr>id_p = playerId, name = playerName,
                         avatar = (if avatar_in = [] then default_avatar else avatar_in),
                         socketId = sock, score = 0\<rparr>;
               room' = room\<lparr>players := AList.update playerId player (players room)\<rparr>;
               roster = map snd (players room')
           in \<lparr>registry = AList.update (toUpperCase upper roomCode) room' rooms,
               emitted = [(To (host room), PlayerJoined player),
                          (To roomCode, PlayerList roster),
                          (Sender, JoinedRoom roomCode roster)],
               scheduled = []\<rparr>))"

subsection \<open>start_game\<close>

definition start_game :: "string \<Rightarrow> string \<Rightarrow> string \<Rightarrow> registry \<Rightarrow> outcome" where
  "start_game sock roomCode game rooms =
     (case map_of rooms roomCode of
        None \<Rightarrow> \<lparr>registry = rooms, emitted = [(Sender, ErrorMsg ''Not authorized'')],
                 scheduled = []\<rparr>
      | Some room \<Rightarrow>
          if host room \<noteq> sock
          then \<lparr>registry = rooms, emitted = [(Sender, ErrorMsg ''Not authorized'')],
                scheduled = []\<rparr>
          else
            (let room' = room\<lparr>currentGame := Some game, gameState := PLAYING,
                              questionNumber := 0,
                              players := map (\<lambda>(k, p). (k, p\<lparr>score := 0\<rparr>)) (players room)\<rparr>
             in \<lparr>registry = AList.update roomCode room' rooms,
                 emitted = [(To roomCode, GameStarted game)],
                 scheduled = [(2000, roomCode)]\<rparr>))"

subsection \<open>nextQuestion\<close>

text \<open>
  \<^verbatim>\<open>Array.prototype.sort\<close> is a stable sort; the comparator returns a negative number
  when its first argument goes first. With a comparator that is a total preorder the
  result of a stable sort is unique, so insertion from the right computes it.
\<close>

fun insert_by :: "('a \<Rightarrow> 'a \<Rightarrow> int) \<Rightarrow> 'a \<Rightarrow> 'a list \<Rightarrow> 'a list" where
  "insert_by cmp x [] = [x]"
| "insert_by cmp x (y # ys) = (if cmp x y \<le> 0 then x # y # ys else y # insert_by cmp x ys)"

definition js_sort :: "('a \<Rightarrow> 'a \<Rightarrow> int) \<Rightarrow> 'a list \<Rightarrow> 'a list" where
  "js_sort cmp xs = foldr (insert_by cmp) xs []"

definition leaderboard :: "room \<Rightarrow> player list" where
  "leaderboard room = js_sort (\<lambda>a b. score b - score a) (map snd (players room))"

text \<open>
  \<open>now\<close> is the value of \<^verbatim>\<open>Date.now()\<close> and \<open>question\<close> the element
  \<^verbatim>\<open>getRandomQuestions(1)[0]\<close> draws from the table.
\<close>

definition nextQuestion :: "string \<Rightarrow> int \<Rightarrow> question \<Rightarrow> registry \<Rightarrow> outcome" where
  "nextQuestion roomCode now question rooms =
     (case map_of rooms roomCode of
        None \<Rightarrow> no_op rooms
      | Some room \<Rightarrow>
          (let n = questionNumber room + 1 in
           if n > 5
           then
             (let room' = room\<lparr>questionNumber := n, gameState := ROUND_END\<rparr>
              in \<lparr>registry = AList.update roomCode room' rooms,
                  emitted = [(To roomCode, RoundEnd (leaderboard room'))],
                  scheduled = []\<rparr>)
           else
             (let room' = room\<lparr>questionNumber := n, currentQuestion := Some question,
                               buzzedPlayer := None, answers := [],
                               questionStartTime := Some now\<rparr>
              in \<lparr>registry = AList.update roomCode room' rooms,
                  emitted = (To (host room'), NewQuestionHost n question) #
                            map (\<lambda>(k, p). (To (socketId p),
                                   NewQuestionPlayer n (q question) (choices question)))
                                (players room'),
                  scheduled = []\<rparr>)))"

subsection \<open>buzz_in and submit_answer\<close>

text \<open>The scan \<^verbatim>\<open>for (const [code, r] of rooms.entries())\<close> that stops at the first
  room whose player map has the id.\<close>

definition find_room :: "string \<Rightarrow> registry \<Rightarrow> (string \<times> room) option" where
  "find_room playerId rooms = find (\<lambda>(c, r). map_has (players r) playerId) rooms"

text \<open>
  \<^verbatim>\<open>if (!room || room.buzzedPlayer) return;\<close> tests the field for truthiness:
  \<^verbatim>\<open>null\<close> and the empty string are both falsy.
\<close>

definition truthy :: "string option \<Rightarrow> bool" where
  "truthy v = (case v of None \<Rightarrow> False | Some s \<Rightarrow> s \<noteq> [])"

definition buzz_in :: "string \<Rightarrow> string \<Rightarrow> registry \<Rightarrow> crash + outcome" where
  "buzz_in sock playerId rooms =
     (case find_room playerId rooms of
        None \<Rightarrow> Inr (no_op rooms)
      | Some (roomCode, room) \<Rightarrow>
          if truthy (buzzedPlayer room) then Inr (no_op rooms)
          else
            (case map_of (players room) playerId of
               None \<Rightarrow> Inl TypeError
             | Some player \<Rightarrow>
                 Inr \<lparr>registry = AList.update roomCode (room\<lparr>buzzedPlayer := Some playerId\<rparr>) rooms,
                      emitted = [(To roomCode, PlayerBuzzed playerId (name player)),
                                 (To (host room), PlayerBuzzed playerId (name player))],
                      scheduled = []\<rparr>))"

text \<open>
  The scoring arithmetic of \<^verbatim>\<open>submit_answer\<close>. \<^verbatim>\<open>Date.now() - null\<close> is
  \<^verbatim>\<open>Date.now()\<close>, as \<^verbatim>\<open>null\<close> converts to 0.
\<close>

definition timeElapsed :: "int \<Rightarrow> room \<Rightarrow> int" where
  "timeElapsed now room = now - (case questionStartTime room of None \<Rightarrow> 0 | Some t \<Rightarrow> t)"

definition timeBonus :: "int \<Rightarrow> rat" where
  "timeBonus elapsed = of_int (max 0 (15000 - elapsed)) / 1000"

definition points_for :: "bool \<Rightarrow> int \<Rightarrow> int" where
  "points_for is_correct elapsed = (if is_correct then \<lfloor>100 + timeBonus elapsed * 10\<rfloor> else 0)"

definition submit_answer ::
  "string \<Rightarrow> int \<Rightarrow> string \<Rightarrow> string \<Rightarrow> registry \<Rightarrow> crash + outcome" where
  "submit_answer sock now playerId answer_in rooms =
     (case find_room playerId rooms of
        None \<Rightarrow> Inr (no_op rooms)
      | Some (roomCode, room) \<Rightarrow>
          (case currentQuestion room of
             None \<Rightarrow> Inr (no_op rooms)
           | Some cq \<Rightarrow>
               (case map_of (players room) playerId of
                  None \<Rightarrow> Inl TypeError
                | Some player \<Rightarrow>
                    (let is_correct = (answer_in = a cq);
                         pts = points_for is_correct (timeElapsed now room);
                         player' = (if is_correct then player\<lparr>score := score player + pts\<rparr>
                                    else player);
                         room' = room\<lparr>players := AList.update playerId player' (players room),
                                      answers := AList.update playerId
                                        \<lparr>answer = answer_in, correct = is_correct, points = pts\<rparr>
                                        (answers room)\<rparr>
                     in Inr \<lparr>registry = AList.update roomCode room' rooms,
                             emitted = [(Sender, AnswerResult is_correct pts (a cq) (score player')),
                                        (To (host room'),
                                           AnswerSubmitted playerId (name player') is_correct pts
                                             answer_in)],
                             scheduled =
                               (if buzzedPlayer room' = Some playerId
                                   \<or> length (answers room') = length (players room')
                                then [(3000, roomCode)] else [])\<rparr>))))"

subsection \<open>disconnect\<close>

text \<open>
  The handler walks every entry of the registry. An entry whose host is the socket is
  deleted after a \<^verbatim>\<open>room_closed\<close> broadcast; in any other entry the inner loop
  removes the first player bound to the socket and stops (\<^verbatim>\<open>break\<close> leaves the inner
  loop only).
\<close>

definition find_player :: "string \<Rightarrow> room \<Rightarrow> (string \<times> player) option" where
  "find_player sock room = find (\<lambda>(playerId, player). socketId player = sock) (players room)"

fun disconnect_loop :: "string \<Rightarrow> registry \<Rightarrow> registry \<times> emit list" where
  "disconnect_loop sock [] = ([], [])"
| "disconnect_loop sock ((c, room) # rest) =
     (let (rest', es) = disconnect_loop sock rest in
      if host room = sock then (rest', (To c, RoomClosed) # es)
      else
        (case find_player sock room of
           None \<Rightarrow> ((c, room) # rest', es)
         | Some (playerId, player) \<Rightarrow>
             ((c, room\<lparr>players := AList.delete playerId (players room)\<rparr>) # rest',
              (To (host room), PlayerLeft playerId) # es)))"

definition disconnect :: "string \<Rightarrow> registry \<Rightarrow> outcome" where
  "disconnect sock rooms =
     (let (rooms', es) = disconnect_loop sock rooms
      in \<lparr>registry = rooms', emitted = es, scheduled = []\<rparr>)"

section \<open>The server as a transition system\<close>

text \<open>
  The event loop handles one event to completion. The state is the registry and the
  pending \<open>nextQuestion\<close> timers. A timer fires at some later moment; which pending
  timer fires next is left open, so every order the delays allow is covered.
\<close>

datatype event =
    Create_room string bool rat rat
  | Join_room string string string string string
  | Start_game string string string
  | Buzz_in string string
  | Submit_answer string int string string
  | Disconnect string
  | Fire nat string int nat

record server =
  server_rooms :: registry
  server_timers :: "timer list"

definition init_server :: server where
  "init_server = \<lparr>server_rooms = [], server_timers = []\<rparr>"

definition commit :: "server \<Rightarrow> outcome \<Rightarrow> server" where
  "commit s out = \<lparr>server_rooms = registry out, server_timers = server_timers s @ scheduled out\<rparr>"

text \<open>
  \<open>step\<close> is \<open>None\<close> when the event cannot happen in the state (a draw outside
  \<open>[0, 1)\<close>, a timer that is not pending, a question index outside the table) and
  \<open>Some (Inl TypeError)\<close> when the handler throws.
\<close>

fun step :: "(string \<Rightarrow> string) \<Rightarrow> server \<Rightarrow> event \<Rightarrow> (crash + server) option" where
  "step upper s (Create_room sock callback r1 r2) =
     (if 0 \<le> r1 \<and> r1 < 1 \<and> 0 \<le> r2 \<and> r2 < 1
      then Some (Inr (commit s (create_room sock callback r1 r2 (server_rooms s)))) else None)"
| "step upper s (Join_room sock roomCode playerId playerName avatar_in) =
     Some (Inr (commit s (join_room upper sock roomCode playerId playerName avatar_in (server_rooms s))))"
| "step upper s (Start_game sock roomCode game) =
     Some (Inr (commit s (start_game sock roomCode game (server_rooms s))))"
| "step upper s (Buzz_in sock playerId) =
     Some (map_sum (\<lambda>e. e) (commit s) (buzz_in sock playerId (server_rooms s)))"
| "step upper s (Submit_answer sock now playerId answer_in) =
     Some (map_sum (\<lambda>e. e) (commit s) (submit_answer sock now playerId answer_in (server_rooms s)))"
| "step upper s (Disconnect sock) = Some (Inr (commit s (disconnect sock (server_rooms s))))"
| "step upper s (Fire delay roomCode now k) =
     (if (delay, roomCode) \<in> set (server_timers s) \<and> k < length triviaQuestions
      then Some (Inr (commit (s\<lparr>server_timers := remove1 (delay, roomCode) (server_timers s)\<rparr>)
                        (nextQuestion roomCode now (triviaQuestions ! k) (server_rooms s))))
      else None)"

fun run :: "(string \<Rightarrow> string) \<Rightarrow> server \<Rightarrow> event list \<Rightarrow> (crash + server) option" where
  "run upper s [] = Some (Inr s)"
| "run upper s (e # es) =
     (case step upper s e of
        Some (Inr s') \<Rightarrow> run upper s' es
      | other \<Rightarrow> other)"

definition reachable :: "(string \<Rightarrow> string) \<Rightarrow> server \<Rightarrow> bool" where
  "reachable upper s = (\<exists>es. run upper init_server es = Some (Inr s))"

section \<open>Example states\<close>

text \<open>A room in the middle of its first question, with two players who have not answered.\<close>

definition demo_player :: "string \<Rightarrow> string \<Rightarrow> int \<Rightarrow> player" where
  "demo_player playerId sock sc =
     \<lparr>id_p = playerId, name = playerId, avatar = default_avatar, socketId = sock, score = sc\<rparr>"

definition demo_room :: room where
  "demo_room =
     \<lparr>code = ''COOL-1234'', host = ''tv'',
      players = [(''p1'', demo_player ''p1'' ''s1'' 0), (''p2'', demo_player ''p2'' ''s2'' 0)],
      gameState = PLAYING, currentGame = Some ''trivia'',
      currentQuestion = Some (hd triviaQuestions), questionNumber = 1, buzzedPlayer = None,
      answers = [], questionStartTime = Some 5000\<rparr>"

definition demo_rooms :: registry where
  "demo_rooms = [(''COOL-1234'', demo_room)]"

text \<open>The same room after player \<open>p1\<close> has buzzed.\<close>

definition demo_room_buzzed :: room where
  "demo_room_buzzed = demo_room\<lparr>buzzedPlayer := Some ''p1''\<rparr>"

text \<open>The same room with two other players, one of them with the empty string as id.\<close>

definition demo_room_empty_id :: room where
  "demo_room_empty_id =
     demo_room\<lparr>players := [('''', demo_player '''' ''s0'' 0), (''b'', demo_player ''b'' ''s2'' 0)]\<rparr>"

text \<open>The room during its fifth question, with three players and two equal scores.\<close>

definition demo_room_last :: room where
  "demo_room_last =
     demo_room\<lparr>players := [(''p1'', demo_player ''p1'' ''s1'' 120), (''p2'', demo_player ''p2'' ''s2'' 340),
                            (''p3'', demo_player ''p3'' ''s3'' 120)],
               questionNumber := 5\<rparr>"

text \<open>
  A second room in the lobby. Its only player is bound to socket \<open>s1\<close>, the socket of
  player \<open>p1\<close> in the first room.
\<close>

definition demo_room_fast :: room where
  "demo_room_fast =
     (new_room ''FAST-2000'' ''tv2'')\<lparr>players := [(''q1'', demo_player ''q1'' ''s1'' 0)]\<rparr>"

definition demo_two_rooms :: registry where
  "demo_two_rooms = [(''COOL-1234'', demo_room), (''FAST-2000'', demo_room_fast)]"

section \<open>Observations and example runs\<close>

text \<open>
  \<open>nextQuestion\<close> stamps \<open>questionStartTime\<close> in the branch that dispatches a question and
  nowhere else, and \<open>createRoom\<close> starts it at null: the stamp records that a question
  has been dispatched to the room.
\<close>

definition question_dispatched :: "room \<Rightarrow> bool" where
  "question_dispatched room = (questionStartTime room \<noteq> None)"

text \<open>The score of a player of a room, if the room and the player exist.\<close>

definition player_score :: "registry \<Rightarrow> string \<Rightarrow> string \<Rightarrow> int option" where
  "player_score rooms roomCode playerId =
     (case map_of rooms roomCode of
        None \<Rightarrow> None
      | Some room \<Rightarrow> map_option score (map_of (players room) playerId))"

text \<open>
  The server and one of its rooms after a run of events from the empty registry. Every
  string of the example runs below is ASCII, so the case mapping outside ASCII is never
  consulted there; the examples pass the identity for it.
\<close>

definition server_after :: "(string \<Rightarrow> string) \<Rightarrow> event list \<Rightarrow> server" where
  "server_after upper es = (case run upper init_server es of Some (Inr s) \<Rightarrow> s | _ \<Rightarrow> init_server)"

definition room_after :: "(string \<Rightarrow> string) \<Rightarrow> event list \<Rightarrow> string \<Rightarrow> room option" where
  "room_after upper es roomCode =
     (case run upper init_server es of
        Some (Inr s) \<Rightarrow> map_of (server_rooms s) roomCode
      | _ \<Rightarrow> None)"

text \<open>
  A game with one player. The host creates the room (the draws give \<open>COOL-1234\<close>), the
  player joins, the host starts the game, the first timer dispatches question 1 at time
  5000 and the player answers it correctly one second later.
\<close>

definition game_start :: "event list" where
  "game_start =
     [Create_room ''tv'' True 0 (13 / 500),
      Join_room ''s1'' ''COOL-1234'' ''p1'' ''Ann'' '''',
      Start_game ''tv'' ''COOL-1234'' ''trivia'',
      Fire 2000 ''COOL-1234'' 5000 0]"

definition first_answer :: event where
  "first_answer = Submit_answer ''s1'' 6000 ''p1'' ''2007''"

definition game_opening :: "event list" where
  "game_opening = game_start @ [first_answer]"

text \<open>The same player id joins the room again from another connection.\<close>

definition rejoin :: event where
  "rejoin = Join_room ''s9'' ''COOL-1234'' ''p1'' ''Ann'' ''''"

text \<open>
  The rest of the round: each timer fires three seconds after the answer that set it, and
  the player answers every question (the third one wrongly); the last timer ends the round.
\<close>

definition round_rest :: "event list" where
  "round_rest =
     [Fire 3000 ''COOL-1234'' 9000 1,
      Submit_answer ''s1'' 10000 ''p1'' ''Mercury'',
      Fire 3000 ''COOL-1234'' 13000 2,
      Submit_answer ''s1'' 14000 ''p1'' ''Raphael'',
      Fire 3000 ''COOL-1234'' 17000 3,
      Submit_answer ''s1'' 18000 ''p1'' ''Canberra'',
      Fire 3000 ''COOL-1234'' 21000 4,
      Submit_answer ''s1'' 22000 ''p1'' ''3'',
      Fire 3000 ''COOL-1234'' 25000 5]"

definition full_round :: "event list" where
  "full_round = game_opening @ round_rest"

text \<open>The room of the first example after player \<open>p2\<close> has answered, wrongly.\<close>

definition demo_room_one_answered :: room where
  "demo_room_one_answered =
     demo_room\<lparr>answers := [(''p2'', \<lparr>answer = ''2005'', correct = False, points = 0\<rparr>)]\<rparr>"

text \<open>
  The history of dispatches. An outcome sends a question when it holds the host's
  \<open>new_question\<close> event; only \<open>nextQuestion\<close> emits it. \<open>dispatched_to\<close> follows a run
  of events and keeps the codes of the rooms that have been sent a question since they
  were created: a timer that sends a question adds its code, and \<open>createRoom\<close> takes the
  code of the fresh room out.
\<close>

definition sends_question :: "outcome \<Rightarrow> bool" where
  "sends_question out =
     list_ex (\<lambda>e. case snd e of NewQuestionHost n question \<Rightarrow> True | _ \<Rightarrow> False) (emitted out)"

definition record_dispatch :: "server \<Rightarrow> event \<Rightarrow> string list \<Rightarrow> string list" where
  "record_dispatch s e sent =
     (case e of
        Create_room sock callback r1 r2 \<Rightarrow> removeAll (generateRoomCode r1 r2) sent
      | Fire delay roomCode now k \<Rightarrow>
          if sends_question (nextQuestion roomCode now (triviaQuestions ! k) (server_rooms s))
          then roomCode # sent else sent
      | _ \<Rightarrow> sent)"

fun dispatched_to :: "(string \<Rightarrow> string) \<Rightarrow> server \<Rightarrow> event list \<Rightarrow> string list \<Rightarrow> string list" where
  "dispatched_to upper s [] sent = sent"
| "dispatched_to upper s (e # es) sent =
     (case step upper s e of
        Some (Inr s') \<Rightarrow> dispatched_to upper s' es (record_dispatch s e sent)
      | _ \<Rightarrow> sent)"

section \<open>Auxiliary facts\<close>

lemma find_room_SomeD:
  assumes "find_room playerId rooms = Some (roomCode, room)"
  shows "(roomCode, room) \<in> set rooms" and "map_has (players room) playerId"
  using assms unfolding find_room_def
  by (auto simp: find_Some_iff in_set_conv_nth)

lemma map_of_update_same: "map_of (AList.update k v al) k = Some v"
  by (simp add: update_conv')

lemma map_of_update_other: "k' \<noteq> k \<Longrightarrow> map_of (AList.update k v al) k' = map_of al k'"
  by (simp add: update_conv')

lemma length_update:
  "length (AList.update k v al) = (if map_has al k then length al else Suc (length al))"
  by (induction al) (auto simp: map_has_def)

lemma points_for_div: "points_for True e = 100 + max 0 (15000 - e) div 100"
proof -
  have "(100::rat) + of_int (max 0 (15000 - e)) / 1000 * 10 = of_int (100 * 100 + max 0 (15000 - e)) / of_int 100"
    by (simp add: field_simps)
  then have "\<lfloor>(100::rat) + of_int (max 0 (15000 - e)) / 1000 * 10\<rfloor> = (100 * 100 + max 0 (15000 - e)) div 100"
    by (simp only: floor_divide_of_int_eq)
  then show ?thesis by (simp add: points_for_def timeBonus_def)
qed

lemma submit_answer_found:
  assumes found: "find_room playerId rooms = Some (roomCode, room)"
    and cq: "currentQuestion room = Some cq"
    and pl: "map_of (players room) playerId = Some player"
  shows "submit_answer sock now playerId ans rooms =
    Inr \<lparr>registry = AList.update roomCode
            (room\<lparr>players := AList.update playerId
                     (if ans = a cq
                      then player\<lparr>score := score player + points_for True (timeElapsed now room)\<rparr>
                      else player) (players room),
                  answers := AList.update playerId
                     \<lparr>answer = ans, correct = (ans = a cq),
                      points = points_for (ans = a cq) (timeElapsed now room)\<rparr> (answers room)\<rparr>)
            rooms,
          emitted = [(Sender, AnswerResult (ans = a cq) (points_for (ans = a cq) (timeElapsed now room))
                        (a cq) (if ans = a cq then score player + points_for True (timeElapsed now room)
                                else score player)),
                     (To (host room), AnswerSubmitted playerId (name player) (ans = a cq)
                        (points_for (ans = a cq) (timeElapsed now room)) ans)],
          scheduled = (if buzzedPlayer room = Some playerId
                          \<or> length (AList.update playerId
                                \<lparr>answer = ans, correct = (ans = a cq),
                                 points = points_for (ans = a cq) (timeElapsed now room)\<rparr>
                                (answers room))
                            = length (AList.update playerId
                                (if ans = a cq
                                 then player\<lparr>score := score player + points_for True (timeElapsed now room)\<rparr>
                                 else player) (players room))
                       then [(3000, roomCode)] else [])\<rparr>"
  by (simp add: submit_answer_def found cq pl Let_def)

lemma demo_find_p1: "find_room ''p1'' demo_rooms = Some (''COOL-1234'', demo_room)"
  by (simp add: find_room_def demo_rooms_def demo_room_def map_has_def)

lemma demo_question: "currentQuestion demo_room = Some (hd triviaQuestions)"
  by (simp add: demo_room_def)

lemma demo_answer: "a (hd triviaQuestions) = ''2007''"
  by (simp add: triviaQuestions_def)

section \<open>Scoring of a submitted answer\<close>

text \<open>
  Claim C1. When \<^verbatim>\<open>submit_answer\<close> finds a room whose \<open>currentQuestion\<close> is set, the
  answer is correct exactly when it equals the stored answer of the question as a string.
  With \<open>elapsed = now - questionStartTime\<close> and \<open>bonus = max(0, 15000 - elapsed) / 1000\<close>
  the points are \<open>floor(100 + bonus * 10)\<close> for a correct answer (240 at 1000 ms, 100
  from 15000 ms on) and 0 for a wrong one; the player's score grows by the points when the
  answer is correct and the player is untouched otherwise; the record of answer, flag and
  points is stored under the player's id, replacing an earlier record of that player and
  leaving the records of the others as they were.
\<close>

theorem submit_answer_scoring:
  assumes found: "find_room playerId rooms = Some (roomCode, room)"
    and cq: "currentQuestion room = Some cq"
    and start: "questionStartTime room = Some t"
  shows "\<exists>out room' player player'.
      submit_answer sock now playerId ans rooms = Inr out
    \<and> map_of (registry out) roomCode = Some room'
    \<and> map_of (players room) playerId = Some player
    \<and> map_of (players room') playerId = Some player'
    \<and> (let is_correct = (ans = a cq);
            elapsed = now - t;
            bonus = of_int (max 0 (15000 - elapsed)) / (1000::rat);
            pts = (if is_correct then \<lfloor>100 + bonus * 10\<rfloor> else 0)
        in score player' = (if is_correct then score player + pts else score player)
         \<and> map_of (answers room') playerId
             = Some \<lparr>answer = ans, correct = is_correct, points = pts\<rparr>
         \<and> (is_correct \<and> elapsed = 1000 \<longrightarrow> pts = 240)
         \<and> (is_correct \<and> elapsed \<ge> 15000 \<longrightarrow> pts = 100)
         \<and> (\<not> is_correct \<longrightarrow> pts = 0 \<and> player' = player))
    \<and> length (answers room')
         = (if map_has (answers room) playerId then length (answers room)
            else length (answers room) + 1)
    \<and> (\<forall>p. p \<noteq> playerId \<longrightarrow> map_of (answers room') p = map_of (answers room) p)"
proof -
  from find_room_SomeD(2)[OF found] obtain player where
    pl: "map_of (players room) playerId = Some player"
    by (auto simp: map_has_def)
  define pts where "pts = points_for (ans = a cq) (timeElapsed now room)"
  define player' where
    "player' = (if ans = a cq then player\<lparr>score := score player + pts\<rparr> else player)"
  define room' where
    "room' = room\<lparr>players := AList.update playerId player' (players room),
                  answers := AList.update playerId
                    \<lparr>answer = ans, correct = (ans = a cq), points = pts\<rparr> (answers room)\<rparr>"
  define out where
    "out = \<lparr>registry = AList.update roomCode room' rooms,
            emitted = [(Sender, AnswerResult (ans = a cq) pts (a cq) (score player')),
                       (To (host room), AnswerSubmitted playerId (name player) (ans = a cq) pts ans)],
            scheduled = (if buzzedPlayer room = Some playerId
                            \<or> length (answers room') = length (players room')
                         then [(3000, roomCode)] else [])\<rparr>"
  have run: "submit_answer sock now playerId ans rooms = Inr out"
    unfolding submit_answer_found[OF found cq pl] out_def room'_def player'_def pts_def
    by (simp add: points_for_def)
  have reg: "map_of (registry out) roomCode = Some room'"
    by (simp add: out_def map_of_update_same)
  have pl': "map_of (players room') playerId = Some player'"
    by (simp add: room'_def map_of_update_same)
  have e: "timeElapsed now room = now - t"
    by (simp add: timeElapsed_def start)
  have formula: "pts = (if ans = a cq
      then \<lfloor>100 + of_int (max 0 (15000 - (now - t))) / (1000::rat) * 10\<rfloor> else 0)"
    by (simp add: pts_def e points_for_def timeBonus_def)
  have sc: "score player' = (if ans = a cq then score player + pts else score player)"
    by (simp add: player'_def)
  have rec: "map_of (answers room') playerId
      = Some \<lparr>answer = ans, correct = (ans = a cq), points = pts\<rparr>"
    by (simp add: room'_def map_of_update_same)
  have p240: "ans = a cq \<and> now - t = 1000 \<longrightarrow> pts = 240"
    by (simp add: pts_def e points_for_div)
  have p100: "ans = a cq \<and> now - t \<ge> 15000 \<longrightarrow> pts = 100"
    by (simp add: pts_def e points_for_div)
  have p0: "ans \<noteq> a cq \<longrightarrow> pts = 0 \<and> player' = player"
    by (simp add: pts_def points_for_def player'_def)
  have len: "length (answers room')
      = (if map_has (answers room) playerId then length (answers room)
         else length (answers room) + 1)"
    by (simp add: room'_def length_update)
  have others: "\<forall>p. p \<noteq> playerId \<longrightarrow> map_of (answers room') p = map_of (answers room) p"
    by (simp add: room'_def map_of_update_other)
  have body: "(let is_correct = (ans = a cq);
            elapsed = now - t;
            bonus = of_int (max 0 (15000 - elapsed)) / (1000::rat);
            pts0 = (if is_correct then \<lfloor>100 + bonus * 10\<rfloor> else 0)
        in score player' = (if is_correct then score player + pts0 else score player)
         \<and> map_of (answers room') playerId
             = Some \<lparr>answer = ans, correct = is_correct, points = pts0\<rparr>
         \<and> (is_correct \<and> elapsed = 1000 \<longrightarrow> pts0 = 240)
         \<and> (is_correct \<and> elapsed \<ge> 15000 \<longrightarrow> pts0 = 100)
         \<and> (\<not> is_correct \<longrightarrow> pts0 = 0 \<and> player' = player))"
    unfolding Let_def formula[symmetric]
    by (intro conjI) (fact sc rec p240 p100 p0)+
  show ?thesis
    by (rule exI[of _ out], rule exI[of _ room'], rule exI[of _ player], rule exI[of _ player'])
       (intro conjI, (fact run reg pl pl' body len others)+)
qed

theorem submit_answer_scoring_witness:
  "\<exists>out room' player'.
      submit_answer ''s1'' 6000 ''p1'' ''2007'' demo_rooms = Inr out
    \<and> map_of (registry out) ''COOL-1234'' = Some room'
    \<and> map_of (players room') ''p1'' = Some player'
    \<and> score player' = 240
    \<and> map_of (answers room') ''p1'' = Some \<lparr>answer = ''2007'', correct = True, points = 240\<rparr>"
proof -
  have start: "questionStartTime demo_room = Some 5000"
    by (simp add: demo_room_def)
  have player: "map_of (players demo_room) ''p1'' = Some (demo_player ''p1'' ''s1'' 0)"
    by (simp add: demo_room_def)
  from submit_answer_scoring[OF demo_find_p1 demo_question start, of "''s1''" 6000 "''2007''"]
  obtain out room' player' where
    "submit_answer ''s1'' 6000 ''p1'' ''2007'' demo_rooms = Inr out"
    "map_of (registry out) ''COOL-1234'' = Some room'"
    "map_of (players room') ''p1'' = Some player'"
    "score player' = score (demo_player ''p1'' ''s1'' 0) + 240"
    "map_of (answers room') ''p1'' = Some \<lparr>answer = ''2007'', correct = True, points = 240\<rparr>"
    by (auto simp: player demo_answer Let_def)
  then show ?thesis by (auto simp: demo_player_def)
qed

section \<open>Room creation\<close>

lemma gen_demo: "generateRoomCode 0 (13/500) = ''COOL-1234''"
  by code_simp

lemma length_adjectives: "length adjectives = 10"
  by (simp add: adjectives_def)

lemma generateRoomCode_format:
  assumes "0 \<le> r1" "r1 < 1" "0 \<le> r2" "r2 < 1"
  shows "\<exists>i n. i < 10 \<and> 1000 \<le> n \<and> n \<le> 9999
           \<and> generateRoomCode r1 r2 = adjectives ! i @ ''-'' @ number_to_string n"
proof -
  define i where "i = nat \<lfloor>r1 * 10\<rfloor>"
  define n where "n = \<lfloor>1000 + r2 * 9000\<rfloor>"
  have "\<lfloor>r1 * 10\<rfloor> < 10" using assms(2) by (simp add: floor_less_iff)
  moreover have "0 \<le> \<lfloor>r1 * 10\<rfloor>" using assms(1) by simp
  ultimately have i: "i < 10" unfolding i_def by linarith
  have "r2 * 9000 < 9000" using assms(4) by simp
  then have "n < 10000" by (simp add: n_def floor_less_iff)
  moreover have "1000 \<le> n" using assms(3) by (simp add: n_def le_floor_iff)
  ultimately have n: "1000 \<le> n" "n \<le> 9999" by linarith+
  have "generateRoomCode r1 r2 = adjectives ! i @ ''-'' @ number_to_string n"
    using i by (simp add: generateRoomCode_def Let_def length_adjectives i_def n_def)
  with i n show ?thesis by (intro exI[of _ i] exI[of _ n]) simp
qed

text \<open>
  Claim C10. \<open>createRoom\<close> stores a fresh room (no players, state \<open>LOBBY\<close>) under the
  generated code whatever the registry holds: there is no collision check and no retry.
  The code is one of the 10 adjectives followed by a dash and a number from 1000 to 9999.
  If the registry already has a room under that code, the lookup of the code now yields
  the fresh room, the number of rooms is unchanged, and the former room is gone; the
  entries under all other codes are untouched. The handler reports success either way.
\<close>

theorem createRoom_overwrites:
  "(0 \<le> r1 \<and> r1 < 1 \<and> 0 \<le> r2 \<and> r2 < 1 \<longrightarrow>
      (\<exists>i n. i < 10 \<and> 1000 \<le> n \<and> n \<le> 9999
         \<and> generateRoomCode r1 r2 = adjectives ! i @ ''-'' @ number_to_string n))
   \<and> (let c = generateRoomCode r1 r2;
            room = fst (createRoom r1 r2 hostSocketId rooms);
            rooms' = snd (createRoom r1 r2 hostSocketId rooms)
        in room = new_room c hostSocketId
         \<and> players room = [] \<and> gameState room = LOBBY
         \<and> map_of rooms' c = Some room
         \<and> (\<forall>c'. c' \<noteq> c \<longrightarrow> map_of rooms' c' = map_of rooms c')
         \<and> length rooms' = (if map_has rooms c then length rooms else length rooms + 1)
         \<and> registry (create_room hostSocketId callback r1 r2 rooms) = rooms'
         \<and> emitted (create_room hostSocketId callback r1 r2 rooms)
             = (if callback then [(Sender, CreateReply c)] else []))"
proof (intro conjI impI)
  assume "0 \<le> r1 \<and> r1 < 1 \<and> 0 \<le> r2 \<and> r2 < 1"
  then show "\<exists>i n. i < 10 \<and> 1000 \<le> n \<and> n \<le> 9999
         \<and> generateRoomCode r1 r2 = adjectives ! i @ ''-'' @ number_to_string n"
    using generateRoomCode_format by simp
next
  show "let c = generateRoomCode r1 r2;
            room = fst (createRoom r1 r2 hostSocketId rooms);
            rooms' = snd (createRoom r1 r2 hostSocketId rooms)
        in room = new_room c hostSocketId
         \<and> players room = [] \<and> gameState room = LOBBY
         \<and> map_of rooms' c = Some room
         \<and> (\<forall>c'. c' \<noteq> c \<longrightarrow> map_of rooms' c' = map_of rooms c')
         \<and> length rooms' = (if map_has rooms c then length rooms else length rooms + 1)
         \<and> registry (create_room hostSocketId callback r1 r2 rooms) = rooms'
         \<and> emitted (create_room hostSocketId callback r1 r2 rooms)
             = (if callback then [(Sender, CreateReply c)] else [])"
    by (simp add: createRoom_def create_room_def Let_def new_room_def map_of_update_same
        map_of_update_other length_update)
qed

theorem createRoom_overwrites_witness:
  "generateRoomCode 0 (13 / 500) = ''COOL-1234''
   \<and> map_of demo_rooms ''COOL-1234'' = Some demo_room
   \<and> map_of (snd (createRoom 0 (13 / 500) ''tv2'' demo_rooms)) ''COOL-1234''
        = Some (new_room ''COOL-1234'' ''tv2'')
   \<and> length (snd (createRoom 0 (13 / 500) ''tv2'' demo_rooms)) = length demo_rooms
   \<and> (\<exists>i n. i < 10 \<and> 1000 \<le> n \<and> n \<le> 9999
         \<and> ''COOL-1234'' = adjectives ! i @ ''-'' @ number_to_string n)"
proof -
  have has: "map_has demo_rooms ''COOL-1234''"
    by (simp add: demo_rooms_def map_has_def)
  have old: "map_of demo_rooms ''COOL-1234'' = Some demo_room"
    by (simp add: demo_rooms_def)
  from createRoom_overwrites[of 0 "13 / 500" "''tv2''" demo_rooms True]
  show ?thesis
    unfolding gen_demo Let_def using has old by simp
qed

section \<open>Lookup of a room by its code\<close>

lemma toUpperCase_demo: "toUpperCase upper ''cool-1234'' = ''COOL-1234''"
proof -
  have "list_all (\<lambda>c. (of_char c :: nat) < 128) ''cool-1234''" by code_simp
  moreover have "map upper_char ''cool-1234'' = ''COOL-1234''" by code_simp
  ultimately show ?thesis by (simp only: toUpperCase_def if_True)
qed

lemma join_room_case_insensitive:
  "toUpperCase upper rc = toUpperCase upper rc'
   \<Longrightarrow> registry (join_room upper sock rc playerId playerName av rooms)
     = registry (join_room upper sock rc' playerId playerName av rooms)"
  by (simp add: join_room_def Let_def split: option.splits)

text \<open>
  Claim C6. Room lookup by code is meant to be case-insensitive. \<^verbatim>\<open>join_room\<close> upper-cases
  the code before the lookup (lemma \<open>join_room_case_insensitive\<close>), but
  \<^verbatim>\<open>start_game\<close> looks the code up as it was sent: for the room stored under
  \<open>COOL-1234\<close>, a \<^verbatim>\<open>join_room\<close> with \<open>cool-1234\<close> adds the player to that room,
  while a \<^verbatim>\<open>start_game\<close> with \<open>cool-1234\<close> from the room's own host finds no room,
  answers \<open>Not authorized\<close> and changes nothing; with \<open>COOL-1234\<close> the same request
  starts the game.
\<close>

theorem start_game_case_sensitive:
  "map_of demo_rooms (toUpperCase upper ''cool-1234'') = Some demo_room
   \<and> map_of (registry (join_room upper ''s3'' ''cool-1234'' ''p3'' ''Pat'' '''' demo_rooms)) ''COOL-1234''
       = Some (demo_room\<lparr>players := players demo_room @
                 [(''p3'', \<lparr>id_p = ''p3'', name = ''Pat'', avatar = default_avatar,
                            socketId = ''s3'', score = 0\<rparr>)]\<rparr>)
   \<and> host demo_room = ''tv''
   \<and> start_game ''tv'' ''cool-1234'' ''trivia'' demo_rooms
       = \<lparr>registry = demo_rooms, emitted = [(Sender, ErrorMsg ''Not authorized'')],
          scheduled = []\<rparr>
   \<and> scheduled (start_game ''tv'' ''COOL-1234'' ''trivia'' demo_rooms)
       = [(2000, ''COOL-1234'')]"
  by (simp add: toUpperCase_demo join_room_def start_game_def demo_rooms_def demo_room_def
      demo_player_def Let_def)

section \<open>The buzz lock\<close>

lemma buzz_in_locked:
  assumes "find_room playerId rooms = Some (roomCode, room)"
    and "buzzedPlayer room = Some b" and "b \<noteq> []"
  shows "buzz_in sock playerId rooms = Inr (no_op rooms)"
  using assms by (simp add: buzz_in_def truthy_def)

lemma buzz_in_no_room:
  "find_room playerId rooms = None \<Longrightarrow> buzz_in sock playerId rooms = Inr (no_op rooms)"
  by (simp add: buzz_in_def)

lemma buzz_in_first:
  assumes "find_room playerId rooms = Some (roomCode, room)"
    and "buzzedPlayer room = None"
  shows "\<exists>out room'. buzz_in sock playerId rooms = Inr out
     \<and> map_of (registry out) roomCode = Some room' \<and> buzzedPlayer room' = Some playerId"
proof -
  from find_room_SomeD(2)[OF assms(1)] obtain player where
    "map_of (players room) playerId = Some player"
    by (auto simp: map_has_def)
  then show ?thesis
    using assms by (simp add: buzz_in_def truthy_def map_of_update_same)
qed

text \<open>
  Claim C4. Of two \<^verbatim>\<open>buzz_in\<close> events for the same question only the first is meant to
  set \<open>buzzedPlayer\<close>. The handler tests \<^verbatim>\<open>room.buzzedPlayer\<close> for truthiness, so the
  lock holds for every non-empty player id (lemma \<open>buzz_in_locked\<close>) but not when the
  first player to buzz has the empty string as id: in the room below, the player with the
  empty id buzzes first and \<open>buzzedPlayer\<close> becomes the empty string; the later buzz of
  player \<open>b\<close> is then not dropped but overwrites \<open>buzzedPlayer\<close> and is broadcast again.
\<close>

theorem buzz_in_empty_id_not_locked:
  "\<exists>out1 room1 out2 room2.
      buzz_in ''s0'' '''' [(''COOL-1234'', demo_room_empty_id)] = Inr out1
    \<and> map_of (registry out1) ''COOL-1234'' = Some room1
    \<and> buzzedPlayer room1 = Some ''''
    \<and> buzz_in ''s2'' ''b'' (registry out1) = Inr out2
    \<and> map_of (registry out2) ''COOL-1234'' = Some room2
    \<and> buzzedPlayer room2 = Some ''b''
    \<and> emitted out2 = [(To ''COOL-1234'', PlayerBuzzed ''b'' ''b''), (To ''tv'', PlayerBuzzed ''b'' ''b'')]"
  by (simp add: buzz_in_def find_room_def map_has_def truthy_def demo_room_empty_id_def
      demo_room_def demo_player_def)

section \<open>The round and its leaderboard\<close>

lemma insert_by_score:
  "insert_by (\<lambda>a b. score b - score a) x ys = insort_key (\<lambda>p. - score p) x ys"
  by (induction ys) auto

lemma js_sort_score:
  "js_sort (\<lambda>a b. score b - score a) xs = sort_key (\<lambda>p. - score p) xs"
  by (induction xs) (simp_all add: js_sort_def insert_by_score)

lemma leaderboard_descending: "sorted (map (\<lambda>p. - score p) (leaderboard room))"
  by (simp add: leaderboard_def js_sort_score)

lemma leaderboard_perm: "mset (leaderboard room) = mset (map snd (players room))"
  by (simp add: leaderboard_def js_sort_score)

lemma leaderboard_stable:
  "filter (\<lambda>p. score p = k) (leaderboard room) = filter (\<lambda>p. score p = k) (map snd (players room))"
proof -
  have "filter (\<lambda>p. - score p = - k) (sort_key (\<lambda>p. - score p) (map snd (players room)))
      = filter (\<lambda>p. - score p = - k) (map snd (players room))"
    by (rule sort_key_stable)
  then show ?thesis by (simp add: leaderboard_def js_sort_score)
qed

text \<open>
  Claim C5. When \<open>nextQuestion\<close> runs for a room of the registry it adds one to
  \<open>questionNumber\<close>. If the new number is above 5, the room's state becomes
  \<open>ROUND_END\<close>, the only event is \<open>round_end\<close> to the room's channel with a leaderboard
  that holds exactly the room's players, in descending order of score, players of equal
  score in the order of the player map; no question is installed or sent and no timer is
  set. Otherwise the drawn question becomes \<open>currentQuestion\<close>, \<open>buzzedPlayer\<close> and
  \<open>answers\<close> are cleared, \<open>questionStartTime\<close> is the current time, and the question
  goes to the host in full and to each player without the answer.
\<close>

theorem nextQuestion_round:
  assumes room: "map_of rooms roomCode = Some room"
  shows "\<exists>room'.
      map_of (registry (nextQuestion roomCode now question rooms)) roomCode = Some room'
    \<and> questionNumber room' = questionNumber room + 1
    \<and> players room' = players room
    \<and> scheduled (nextQuestion roomCode now question rooms) = []
    \<and> (if questionNumber room + 1 > 5
        then gameState room' = ROUND_END
           \<and> currentQuestion room' = currentQuestion room
           \<and> (\<exists>board. emitted (nextQuestion roomCode now question rooms)
                         = [(To roomCode, RoundEnd board)]
                \<and> mset board = mset (map snd (players room))
                \<and> sorted (map (\<lambda>p. - score p) board)
                \<and> (\<forall>k. filter (\<lambda>p. score p = k) board
                         = filter (\<lambda>p. score p = k) (map snd (players room))))
        else gameState room' = gameState room
           \<and> currentQuestion room' = Some question
           \<and> buzzedPlayer room' = None
           \<and> answers room' = []
           \<and> questionStartTime room' = Some now
           \<and> emitted (nextQuestion roomCode now question rooms)
               = (To (host room), NewQuestionHost (questionNumber room + 1) question) #
                 map (\<lambda>(k, p). (To (socketId p),
                        NewQuestionPlayer (questionNumber room + 1) (q question) (choices question)))
                     (players room))"
proof (cases "questionNumber room + 1 > 5")
  case True
  define room' where "room' = room\<lparr>questionNumber := questionNumber room + 1, gameState := ROUND_END\<rparr>"
  have out: "nextQuestion roomCode now question rooms
      = \<lparr>registry = AList.update roomCode room' rooms,
         emitted = [(To roomCode, RoundEnd (leaderboard room'))], scheduled = []\<rparr>"
    using True by (simp add: nextQuestion_def room Let_def room'_def)
  have pl: "players room' = players room" by (simp add: room'_def)
  have board: "mset (leaderboard room') = mset (map snd (players room))
      \<and> sorted (map (\<lambda>p. - score p) (leaderboard room'))
      \<and> (\<forall>k. filter (\<lambda>p. score p = k) (leaderboard room')
             = filter (\<lambda>p. score p = k) (map snd (players room)))"
    using leaderboard_perm[of room'] leaderboard_descending[of room'] leaderboard_stable[of _ room']
    by (simp add: pl)
  show ?thesis
    apply (rule exI[of _ room'])
    unfolding out
    using True board by (simp add: map_of_update_same room'_def)
next
  case False
  define room' where
    "room' = room\<lparr>questionNumber := questionNumber room + 1, currentQuestion := Some question,
                  buzzedPlayer := None, answers := [], questionStartTime := Some now\<rparr>"
  have out: "nextQuestion roomCode now question rooms
      = \<lparr>registry = AList.update roomCode room' rooms,
         emitted = (To (host room), NewQuestionHost (questionNumber room + 1) question) #
                 map (\<lambda>(k, p). (To (socketId p),
                        NewQuestionPlayer (questionNumber room + 1) (q question) (choices question)))
                     (players room),
         scheduled = []\<rparr>"
    using False by (simp add: nextQuestion_def room Let_def room'_def)
  show ?thesis
    apply (rule exI[of _ room'])
    unfolding out
    using False by (simp add: map_of_update_same room'_def)
qed

lemma demo_last_room: "map_of [(''COOL-1234'', demo_room_last)] ''COOL-1234'' = Some demo_room_last"
  by simp

theorem nextQuestion_round_witness:
  "emitted (nextQuestion ''COOL-1234'' 90000 (hd triviaQuestions) [(''COOL-1234'', demo_room_last)])
     = [(To ''COOL-1234'', RoundEnd [demo_player ''p2'' ''s2'' 340, demo_player ''p1'' ''s1'' 120,
                                      demo_player ''p3'' ''s3'' 120])]
   \<and> (\<exists>room'. map_of (registry (nextQuestion ''COOL-1234'' 90000 (hd triviaQuestions)
                        [(''COOL-1234'', demo_room_last)])) ''COOL-1234'' = Some room'
        \<and> questionNumber room' = 6 \<and> gameState room' = ROUND_END)
   \<and> (\<exists>room'. map_of (registry (nextQuestion ''COOL-1234'' 7000 (hd triviaQuestions) demo_rooms))
                  ''COOL-1234'' = Some room'
        \<and> questionNumber room' = 2 \<and> currentQuestion room' = Some (hd triviaQuestions)
        \<and> questionStartTime room' = Some 7000)"
proof (intro conjI)
  show "emitted (nextQuestion ''COOL-1234'' 90000 (hd triviaQuestions) [(''COOL-1234'', demo_room_last)])
     = [(To ''COOL-1234'', RoundEnd [demo_player ''p2'' ''s2'' 340, demo_player ''p1'' ''s1'' 120,
                                      demo_player ''p3'' ''s3'' 120])]"
    by (simp add: nextQuestion_def demo_room_last_def demo_room_def leaderboard_def js_sort_def
        demo_player_def)
next
  have n: "questionNumber demo_room_last = 5" by (simp add: demo_room_last_def)
  from nextQuestion_round[OF demo_last_room, of 90000 "hd triviaQuestions"]
  show "\<exists>room'. map_of (registry (nextQuestion ''COOL-1234'' 90000 (hd triviaQuestions)
                        [(''COOL-1234'', demo_room_last)])) ''COOL-1234'' = Some room'
        \<and> questionNumber room' = 6 \<and> gameState room' = ROUND_END"
    unfolding n by auto
next
  have r: "map_of demo_rooms ''COOL-1234'' = Some demo_room" by (simp add: demo_rooms_def)
  have n: "questionNumber demo_room = 1" by (simp add: demo_room_def)
  from nextQuestion_round[OF r, of 7000 "hd triviaQuestions"]
  show "\<exists>room'. map_of (registry (nextQuestion ''COOL-1234'' 7000 (hd triviaQuestions) demo_rooms))
                  ''COOL-1234'' = Some room'
        \<and> questionNumber room' = 2 \<and> currentQuestion room' = Some (hd triviaQuestions)
        \<and> questionStartTime room' = Some 7000"
    unfolding n by auto
qed

section \<open>Disconnection\<close>

lemma disconnect_loop_registry:
  "fst (disconnect_loop sock rooms)
     = map (\<lambda>e. (fst e, case find_player sock (snd e) of
                            None \<Rightarrow> snd e
                          | Some found \<Rightarrow>
                              (snd e)\<lparr>players := AList.delete (fst found) (players (snd e))\<rparr>))
           (filter (\<lambda>e. host (snd e) \<noteq> sock) rooms)"
  by (induction sock rooms rule: disconnect_loop.induct)
     (simp_all add: case_prod_beta Let_def split: option.splits)

lemma disconnect_loop_emitted:
  "snd (disconnect_loop sock rooms)
     = concat (map (\<lambda>e. if host (snd e) = sock then [(To (fst e), RoomClosed)]
                          else (case find_player sock (snd e) of
                                  None \<Rightarrow> []
                                | Some found \<Rightarrow> [(To (host (snd e)), PlayerLeft (fst found))]))
                    rooms)"
  by (induction sock rooms rule: disconnect_loop.induct)
     (simp_all add: case_prod_beta Let_def split: option.splits)

lemma disconnect_outcome:
  "disconnect sock rooms
     = \<lparr>registry = fst (disconnect_loop sock rooms), emitted = snd (disconnect_loop sock rooms),
        scheduled = []\<rparr>"
  by (simp add: disconnect_def split: prod.splits)

lemma find_player_first:
  assumes "find_player sock room = Some found"
  shows "\<exists>i < length (players room). players room ! i = found
           \<and> socketId (snd found) = sock
           \<and> (\<forall>j < i. socketId (snd (players room ! j)) \<noteq> sock)"
  using assms unfolding find_player_def find_Some_iff
  by (auto simp: case_prod_beta)

lemma disconnect_registry_member:
  assumes "(c, r') \<in> set (registry (disconnect sock rooms))"
  shows "\<exists>r. (c, r) \<in> set rooms \<and> host r \<noteq> sock
           \<and> (\<forall>p. map_has (players r') p \<longrightarrow> map_has (players r) p)"
proof -
  from assms obtain e where e: "e \<in> set rooms" "host (snd e) \<noteq> sock" "c = fst e"
    and r': "r' = (case find_player sock (snd e) of
                     None \<Rightarrow> snd e
                   | Some found \<Rightarrow> (snd e)\<lparr>players := AList.delete (fst found) (players (snd e))\<rparr>)"
    by (auto simp: disconnect_outcome disconnect_loop_registry)
  have "map_has (players r') p \<longrightarrow> map_has (players (snd e)) p" for p
    by (auto simp: r' map_has_def delete_conv' split: option.splits if_splits)
  with e show ?thesis by (intro exI[of _ "snd e"]) simp
qed

lemma closed_room_gone:
  assumes "distinct (map fst rooms)" "map_of rooms roomCode = Some room" "host room = sock"
  shows "map_of (registry (disconnect sock rooms)) roomCode = None"
proof (rule ccontr)
  assume "map_of (registry (disconnect sock rooms)) roomCode \<noteq> None"
  then obtain r' where "(roomCode, r') \<in> set (registry (disconnect sock rooms))"
    by (auto dest: map_of_SomeD)
  from disconnect_registry_member[OF this] obtain r where
    r: "(roomCode, r) \<in> set rooms" "host r \<noteq> sock" by auto
  from assms(1) r(1) have "map_of rooms roomCode = Some r" by simp
  with assms(2,3) r(2) show False by simp
qed

lemma room_closed_emitted:
  assumes "(roomCode, room) \<in> set rooms" "host room = sock"
  shows "(To roomCode, RoomClosed) \<in> set (emitted (disconnect sock rooms))"
  using assms by (force simp: disconnect_outcome disconnect_loop_emitted)

lemma find_room_None_iff:
  "find_room playerId rooms = None \<longleftrightarrow> (\<forall>e \<in> set rooms. \<not> map_has (players (snd e)) playerId)"
  by (auto simp: find_room_def find_None_iff)

lemma update_keys_present:
  "(k, v) \<in> set al \<Longrightarrow> fst ` set (AList.update k v' al) = fst ` set al"
  by (force simp: dom_update)

lemma submit_answer_total:
  "\<exists>out. submit_answer sock now playerId ans rooms = Inr out
          \<and> fst ` set (registry out) = fst ` set rooms"
proof (cases "find_room playerId rooms")
  case None
  then show ?thesis by (simp add: submit_answer_def no_op_def)
next
  case (Some found)
  obtain roomCode room where found: "found = (roomCode, room)" by (cases found)
  from find_room_SomeD[OF Some[unfolded found]] obtain player where
    mem: "(roomCode, room) \<in> set rooms" and pl: "map_of (players room) playerId = Some player"
    by (auto simp: map_has_def)
  show ?thesis
  proof (cases "currentQuestion room")
    case None
    then show ?thesis using Some found by (simp add: submit_answer_def no_op_def)
  next
    case (Some cq)
    show ?thesis
      unfolding submit_answer_found[OF \<open>find_room playerId rooms = Some found\<close>[unfolded found] Some pl]
      by (simp add: update_keys_present[OF mem])
  qed
qed

lemma buzz_in_total:
  "\<exists>out. buzz_in sock playerId rooms = Inr out
          \<and> fst ` set (registry out) = fst ` set rooms"
proof (cases "find_room playerId rooms")
  case None
  then show ?thesis by (simp add: buzz_in_def no_op_def)
next
  case (Some found)
  obtain roomCode room where found: "found = (roomCode, room)" by (cases found)
  from find_room_SomeD[OF Some[unfolded found]] obtain player where
    mem: "(roomCode, room) \<in> set rooms" and pl: "map_of (players room) playerId = Some player"
    by (auto simp: map_has_def)
  show ?thesis
    using Some found pl by (simp add: buzz_in_def no_op_def update_keys_present[OF mem])
qed

lemma map_of_None_keys: "map_of al k = None \<longleftrightarrow> k \<notin> fst ` set al"
  by (simp add: map_of_eq_None_iff)

text \<open>
  Claim C7. When the host's connection disconnects, the room is removed from the registry
  and \<open>room_closed\<close> is sent to the room's channel. In the registry that is left, every
  operation that names the room finds nothing and leaves things as they are: a pending
  \<open>nextQuestion\<close> timer for the code does nothing at all, \<^verbatim>\<open>start_game\<close> and
  \<^verbatim>\<open>join_room\<close> for the code leave the registry unchanged, and \<^verbatim>\<open>submit_answer\<close> and
  \<^verbatim>\<open>buzz_in\<close> return normally without bringing the code back; for a player who was in
  no other room they do nothing at all. No handler throws.
\<close>

theorem host_disconnect_closes_room:
  assumes keys: "distinct (map fst rooms)"
    and room: "map_of rooms roomCode = Some room"
    and host: "host room = sock"
  shows "let rooms' = registry (disconnect sock rooms) in
      map_of rooms' roomCode = None
    \<and> (To roomCode, RoomClosed) \<in> set (emitted (disconnect sock rooms))
    \<and> nextQuestion roomCode now question rooms' = no_op rooms'
    \<and> registry (start_game sock' roomCode game rooms') = rooms'
    \<and> scheduled (start_game sock' roomCode game rooms') = []
    \<and> (toUpperCase upper rc = roomCode \<longrightarrow>
          registry (join_room upper sock' rc playerId playerName av rooms') = rooms')
    \<and> (\<exists>out. submit_answer sock' now playerId ans rooms' = Inr out
             \<and> map_of (registry out) roomCode = None)
    \<and> (\<exists>out. buzz_in sock' playerId rooms' = Inr out
             \<and> map_of (registry out) roomCode = None)
    \<and> ((\<forall>e \<in> set rooms. fst e \<noteq> roomCode \<longrightarrow> \<not> map_has (players (snd e)) playerId) \<longrightarrow>
          submit_answer sock' now playerId ans rooms' = Inr (no_op rooms')
        \<and> buzz_in sock' playerId rooms' = Inr (no_op rooms'))"
proof -
  define rooms' where "rooms' = registry (disconnect sock rooms)"
  have gone: "map_of rooms' roomCode = None"
    unfolding rooms'_def by (rule closed_room_gone[OF keys room host])
  have mem: "(roomCode, room) \<in> set rooms"
    using room by (rule map_of_SomeD)
  have closed: "(To roomCode, RoomClosed) \<in> set (emitted (disconnect sock rooms))"
    by (rule room_closed_emitted[OF mem host])
  have timer: "nextQuestion roomCode now question rooms' = no_op rooms'"
    by (simp add: nextQuestion_def gone)
  have start: "registry (start_game sock' roomCode game rooms') = rooms'"
    "scheduled (start_game sock' roomCode game rooms') = []"
    by (simp_all add: start_game_def gone)
  have join: "toUpperCase upper rc = roomCode \<longrightarrow>
          registry (join_room upper sock' rc playerId playerName av rooms') = rooms'"
    by (auto simp: join_room_def gone)
  from submit_answer_total[of sock' now playerId ans rooms'] obtain out1 where
    "submit_answer sock' now playerId ans rooms' = Inr out1"
    "fst ` set (registry out1) = fst ` set rooms'" by auto
  with gone have submit: "\<exists>out. submit_answer sock' now playerId ans rooms' = Inr out
             \<and> map_of (registry out) roomCode = None"
    by (simp add: map_of_None_keys)
  from buzz_in_total[of sock' playerId rooms'] obtain out2 where
    "buzz_in sock' playerId rooms' = Inr out2"
    "fst ` set (registry out2) = fst ` set rooms'" by auto
  with gone have buzz: "\<exists>out. buzz_in sock' playerId rooms' = Inr out
             \<and> map_of (registry out) roomCode = None"
    by (simp add: map_of_None_keys)
  have former: "(\<forall>e \<in> set rooms. fst e \<noteq> roomCode \<longrightarrow> \<not> map_has (players (snd e)) playerId) \<longrightarrow>
          submit_answer sock' now playerId ans rooms' = Inr (no_op rooms')
        \<and> buzz_in sock' playerId rooms' = Inr (no_op rooms')"
  proof
    assume only: "\<forall>e \<in> set rooms. fst e \<noteq> roomCode \<longrightarrow> \<not> map_has (players (snd e)) playerId"
    have "\<not> map_has (players (snd e')) playerId" if e': "e' \<in> set rooms'" for e'
    proof
      assume has: "map_has (players (snd e')) playerId"
      from e' have "(fst e', snd e') \<in> set (registry (disconnect sock rooms))"
        by (simp add: rooms'_def)
      from disconnect_registry_member[OF this] obtain r where
        r: "(fst e', r) \<in> set rooms" "host r \<noteq> sock"
           "\<forall>p. map_has (players (snd e')) p \<longrightarrow> map_has (players r) p"
        by auto
      from keys r(1) have "map_of rooms (fst e') = Some r" by simp
      with room host r(2) have "fst e' \<noteq> roomCode" by auto
      with only r(1) have "\<not> map_has (players r) playerId" by force
      with r(3) has show False by simp
    qed
    then have "find_room playerId rooms' = None"
      by (simp add: find_room_None_iff)
    then show "submit_answer sock' now playerId ans rooms' = Inr (no_op rooms')
        \<and> buzz_in sock' playerId rooms' = Inr (no_op rooms')"
      by (simp add: submit_answer_def buzz_in_def)
  qed
  show ?thesis
    unfolding Let_def rooms'_def[symmetric]
    by (intro conjI) (fact gone closed timer start join submit buzz former)+
qed

theorem host_disconnect_closes_room_witness:
  "map_of (registry (disconnect ''tv'' demo_two_rooms)) ''COOL-1234'' = None
   \<and> (To ''COOL-1234'', RoomClosed) \<in> set (emitted (disconnect ''tv'' demo_two_rooms))
   \<and> nextQuestion ''COOL-1234'' 6000 (hd triviaQuestions) (registry (disconnect ''tv'' demo_two_rooms))
       = no_op (registry (disconnect ''tv'' demo_two_rooms))
   \<and> registry (join_room id ''s1'' ''cool-1234'' ''p1'' ''p1'' '''' (registry (disconnect ''tv'' demo_two_rooms)))
       = registry (disconnect ''tv'' demo_two_rooms)
   \<and> submit_answer ''s1'' 6000 ''p1'' ''2007'' (registry (disconnect ''tv'' demo_two_rooms))
       = Inr (no_op (registry (disconnect ''tv'' demo_two_rooms)))
   \<and> buzz_in ''s1'' ''p1'' (registry (disconnect ''tv'' demo_two_rooms))
       = Inr (no_op (registry (disconnect ''tv'' demo_two_rooms)))"
proof -
  have keys: "distinct (map fst demo_two_rooms)"
    by (simp add: demo_two_rooms_def)
  have room: "map_of demo_two_rooms ''COOL-1234'' = Some demo_room"
    by (simp add: demo_two_rooms_def)
  have host: "host demo_room = ''tv''"
    by (simp add: demo_room_def)
  have only: "\<forall>e \<in> set demo_two_rooms. fst e \<noteq> ''COOL-1234'' \<longrightarrow> \<not> map_has (players (snd e)) ''p1''"
    by (simp add: demo_two_rooms_def demo_room_fast_def map_has_def)
  from host_disconnect_closes_room[OF keys room host,
      where upper = id and now = 6000 and question = "hd triviaQuestions" and sock' = "''s1''"
        and game = "''trivia''" and rc = "''cool-1234''" and playerId = "''p1''"
        and playerName = "''p1''" and av = "''''" and ans = "''2007''"]
  show ?thesis
    unfolding Let_def using only toUpperCase_demo by simp
qed

text \<open>
  Claim C8, as the handler has it. When a connection that hosts no room disconnects, the
  handler visits every room: in each room the first player (in the order of the room's
  player map) bound to the connection is removed and that room's host is told
  \<open>player_left\<close>; a room with no such player, and every other player, stays as it is. The
  \<^verbatim>\<open>break\<close> ends the scan of one room's players only, so the connection is removed from
  every room it joined, not from the first one alone.
\<close>

theorem disconnect_removes_player_per_room:
  assumes "\<forall>e \<in> set rooms. host (snd e) \<noteq> sock"
  shows "registry (disconnect sock rooms)
           = map (\<lambda>e. (fst e, case find_player sock (snd e) of
                                 None \<Rightarrow> snd e
                               | Some found \<Rightarrow>
                                   (snd e)\<lparr>players := AList.delete (fst found) (players (snd e))\<rparr>))
                 rooms
       \<and> emitted (disconnect sock rooms)
           = concat (map (\<lambda>e. case find_player sock (snd e) of
                                 None \<Rightarrow> []
                               | Some found \<Rightarrow> [(To (host (snd e)), PlayerLeft (fst found))])
                         rooms)
       \<and> scheduled (disconnect sock rooms) = []"
proof -
  have all: "filter (\<lambda>e. host (snd e) \<noteq> sock) rooms = rooms"
    using assms by (simp add: filter_id_conv)
  have reg: "registry (disconnect sock rooms)
           = map (\<lambda>e. (fst e, case find_player sock (snd e) of
                                 None \<Rightarrow> snd e
                               | Some found \<Rightarrow>
                                   (snd e)\<lparr>players := AList.delete (fst found) (players (snd e))\<rparr>))
                 rooms"
    by (simp add: disconnect_outcome disconnect_loop_registry all)
  have em: "emitted (disconnect sock rooms)
           = concat (map (\<lambda>e. case find_player sock (snd e) of
                                 None \<Rightarrow> []
                               | Some found \<Rightarrow> [(To (host (snd e)), PlayerLeft (fst found))])
                         rooms)"
    unfolding disconnect_outcome disconnect_loop_emitted
    using assms by (auto intro!: arg_cong[where f = concat])
  have sch: "scheduled (disconnect sock rooms) = []"
    by (simp add: disconnect_outcome)
  from reg em sch show ?thesis by (intro conjI)
qed

theorem disconnect_removes_player_per_room_witness:
  "registry (disconnect ''s2'' demo_two_rooms)
     = [(''COOL-1234'', demo_room\<lparr>players := [(''p1'', demo_player ''p1'' ''s1'' 0)]\<rparr>),
        (''FAST-2000'', demo_room_fast)]
   \<and> emitted (disconnect ''s2'' demo_two_rooms) = [(To ''tv'', PlayerLeft ''p2'')]"
proof -
  have hosts: "\<forall>e \<in> set demo_two_rooms. host (snd e) \<noteq> ''s2''"
    by (simp add: demo_two_rooms_def demo_room_def demo_room_fast_def new_room_def)
  from disconnect_removes_player_per_room[OF hosts]
  show ?thesis
    by (simp add: demo_two_rooms_def demo_room_def demo_room_fast_def new_room_def find_player_def
        demo_player_def)
qed

text \<open>
  The two rooms of the example both hold a player bound to the socket \<open>s1\<close>, and
  \<open>s1\<close> hosts neither. After the disconnect the player is gone from the second room
  as well, and both hosts are notified.
\<close>

theorem disconnect_first_room_only_counterexample:
  "players demo_room_fast = [(''q1'', demo_player ''q1'' ''s1'' 0)]
   \<and> host demo_room \<noteq> ''s1'' \<and> host demo_room_fast \<noteq> ''s1''
   \<and> disconnect ''s1'' demo_two_rooms
       = \<lparr>registry = [(''COOL-1234'', demo_room\<lparr>players := [(''p2'', demo_player ''p2'' ''s2'' 0)]\<rparr>),
                       (''FAST-2000'', demo_room_fast\<lparr>players := []\<rparr>)],
          emitted = [(To ''tv'', PlayerLeft ''p1''), (To ''tv2'', PlayerLeft ''q1'')],
          scheduled = []\<rparr>"
  by (simp add: disconnect_def demo_two_rooms_def demo_room_def demo_room_fast_def new_room_def
      find_player_def demo_player_def)

section \<open>Invariants of the reachable states\<close>

lemma run_invariant:
  assumes start: "P s0"
    and keep: "\<And>s e s'. P s \<Longrightarrow> step upper s e = Some (Inr s') \<Longrightarrow> P s'"
    and run: "run upper s0 es = Some (Inr s)"
  shows "P s"
  using run start
proof (induction es arbitrary: s0)
  case Nil
  then show ?case by simp
next
  case (Cons e es)
  from Cons.prems(1) obtain s1 where s1: "step upper s0 e = Some (Inr s1)" and rest: "run upper s1 es = Some (Inr s)"
    by (auto split: option.splits sum.splits)
  from keep[OF Cons.prems(2) s1] have "P s1" .
  from Cons.IH[OF rest this] show ?case .
qed

lemma reachable_invariant:
  assumes "reachable upper s" and "P init_server"
    and "\<And>s e s'. P s \<Longrightarrow> step upper s e = Some (Inr s') \<Longrightarrow> P s'"
  shows "P s"
  using assms unfolding reachable_def by (blast intro: run_invariant)

text \<open>Every event replaces the registry by the registry of one handler's outcome.\<close>

lemma step_rooms:
  assumes "step upper s e = Some (Inr s')"
  shows "(\<exists>sock cb r1 r2. 0 \<le> r1 \<and> r1 < 1 \<and> 0 \<le> r2 \<and> r2 < 1 \<and> e = Create_room sock cb r1 r2
            \<and> server_rooms s' = registry (create_room sock cb r1 r2 (server_rooms s)))
       \<or> (\<exists>sock rc p nm av. e = Join_room sock rc p nm av
            \<and> server_rooms s' = registry (join_room upper sock rc p nm av (server_rooms s)))
       \<or> (\<exists>sock rc g. e = Start_game sock rc g
            \<and> server_rooms s' = registry (start_game sock rc g (server_rooms s)))
       \<or> (\<exists>sock p out. e = Buzz_in sock p \<and> buzz_in sock p (server_rooms s) = Inr out
            \<and> server_rooms s' = registry out)
       \<or> (\<exists>sock now p ans out. e = Submit_answer sock now p ans
            \<and> submit_answer sock now p ans (server_rooms s) = Inr out
            \<and> server_rooms s' = registry out)
       \<or> (\<exists>sock. e = Disconnect sock \<and> server_rooms s' = registry (disconnect sock (server_rooms s)))
       \<or> (\<exists>d rc now k. e = Fire d rc now k \<and> k < length triviaQuestions
            \<and> server_rooms s' = registry (nextQuestion rc now (triviaQuestions ! k) (server_rooms s)))"
proof (cases e)
  case (Create_room sock cb r1 r2)
  with assms show ?thesis by (auto simp: commit_def split: if_splits)
next
  case (Join_room sock rc p nm av)
  with assms show ?thesis by (auto simp: commit_def)
next
  case (Start_game sock rc g)
  with assms show ?thesis by (auto simp: commit_def)
next
  case (Buzz_in sock p)
  with assms show ?thesis
    by (cases "buzz_in sock p (server_rooms s)") (auto simp: commit_def)
next
  case (Submit_answer sock now p ans)
  with assms show ?thesis
    by (cases "submit_answer sock now p ans (server_rooms s)") (auto simp: commit_def)
next
  case (Disconnect sock)
  with assms show ?thesis by (auto simp: commit_def)
next
  case (Fire d rc now k)
  with assms show ?thesis by (auto simp: commit_def split: if_splits)
qed

lemma set_update_cases:
  "e \<in> set (AList.update k v al) \<Longrightarrow> e = (k, v) \<or> e \<in> set al"
  by (induction al) (auto split: if_splits)

text \<open>
  Registry shape of the handlers that touch at most one room: the registry is unchanged,
  or one entry is written with \<^verbatim>\<open>Map.set\<close>.
\<close>

lemma buzz_in_registry:
  assumes "buzz_in sock playerId rooms = Inr out"
  shows "registry out = rooms
       \<or> (\<exists>roomCode room. find_room playerId rooms = Some (roomCode, room)
            \<and> registry out = AList.update roomCode (room\<lparr>buzzedPlayer := Some playerId\<rparr>) rooms)"
  using assms
  by (auto simp: buzz_in_def no_op_def split: option.splits if_splits)

lemma submit_answer_registry:
  assumes "submit_answer sock now playerId ans rooms = Inr out"
  shows "registry out = rooms
       \<or> (\<exists>roomCode room cq player.
             find_room playerId rooms = Some (roomCode, room)
           \<and> currentQuestion room = Some cq
           \<and> map_of (players room) playerId = Some player
           \<and> registry out = AList.update roomCode
               (room\<lparr>players := AList.update playerId
                        (if ans = a cq
                         then player\<lparr>score := score player + points_for True (timeElapsed now room)\<rparr>
                         else player) (players room),
                     answers := AList.update playerId
                        \<lparr>answer = ans, correct = (ans = a cq),
                         points = points_for (ans = a cq) (timeElapsed now room)\<rparr> (answers room)\<rparr>)
               rooms)"
proof (cases "find_room playerId rooms")
  case None
  with assms show ?thesis by (auto simp: submit_answer_def no_op_def)
next
  case (Some found)
  obtain roomCode room where found: "find_room playerId rooms = Some (roomCode, room)"
    using Some by (cases found) simp
  from find_room_SomeD(2)[OF found] obtain player where
    pl: "map_of (players room) playerId = Some player" by (auto simp: map_has_def)
  show ?thesis
  proof (cases "currentQuestion room")
    case None
    with assms found show ?thesis by (auto simp: submit_answer_def no_op_def)
  next
    case (Some cq)
    from assms[unfolded submit_answer_found[OF found Some pl]] found Some pl
    show ?thesis by auto
  qed
qed

lemma nextQuestion_registry:
  "registry (nextQuestion roomCode now question rooms) = rooms
   \<or> (\<exists>room. map_of rooms roomCode = Some room
        \<and> (registry (nextQuestion roomCode now question rooms)
              = AList.update roomCode
                  (room\<lparr>questionNumber := questionNumber room + 1, gameState := ROUND_END\<rparr>) rooms
           \<or> registry (nextQuestion roomCode now question rooms)
              = AList.update roomCode
                  (room\<lparr>questionNumber := questionNumber room + 1,
                        currentQuestion := Some question, buzzedPlayer := None, answers := [],
                        questionStartTime := Some now\<rparr>) rooms))"
  by (simp add: nextQuestion_def no_op_def Let_def split: option.splits)

lemma join_room_registry:
  "registry (join_room upper sock rc playerId playerName av rooms) = rooms
   \<or> (\<exists>room. map_of rooms (toUpperCase upper rc) = Some room
        \<and> registry (join_room upper sock rc playerId playerName av rooms)
            = AList.update (toUpperCase upper rc)
                (room\<lparr>players := AList.update playerId
                        \<lparr>id_p = playerId, name = playerName,
                         avatar = (if av = [] then default_avatar else av),
                         socketId = sock, score = 0\<rparr> (players room)\<rparr>) rooms)"
  by (simp add: join_room_def Let_def split: option.splits)

lemma start_game_registry:
  "registry (start_game sock rc game rooms) = rooms
   \<or> (\<exists>room. map_of rooms rc = Some room \<and> host room = sock
        \<and> registry (start_game sock rc game rooms)
            = AList.update rc
                (room\<lparr>currentGame := Some game, gameState := PLAYING, questionNumber := 0,
                      players := map (\<lambda>(k, p). (k, p\<lparr>score := 0\<rparr>)) (players room)\<rparr>) rooms)"
  by (simp add: start_game_def Let_def split: option.splits)

lemma create_room_registry:
  "registry (create_room sock cb r1 r2 rooms)
     = AList.update (generateRoomCode r1 r2) (new_room (generateRoomCode r1 r2) sock) rooms"
  by (simp add: create_room_def createRoom_def Let_def)

lemma disconnect_registry_keys:
  "map fst (registry (disconnect sock rooms)) = map fst (filter (\<lambda>e. host (snd e) \<noteq> sock) rooms)"
  by (simp add: disconnect_outcome disconnect_loop_registry comp_def)

lemma distinct_keys_filter:
  "distinct (map fst al) \<Longrightarrow> distinct (map fst (filter P al))"
  by (induction al) auto

lemma step_keeps_distinct_keys:
  assumes "distinct (map fst (server_rooms s))" and "step upper s e = Some (Inr s')"
  shows "distinct (map fst (server_rooms s'))"
  using step_rooms[OF assms(2)]
proof (elim disjE exE conjE)
  fix sock p out
  assume "buzz_in sock p (server_rooms s) = Inr out" "server_rooms s' = registry out"
  with buzz_in_registry[of sock p "server_rooms s" out] assms(1)
  show ?thesis by (auto simp: distinct_update)
next
  fix sock now p ans out
  assume "submit_answer sock now p ans (server_rooms s) = Inr out" "server_rooms s' = registry out"
  with submit_answer_registry[of sock now p ans "server_rooms s" out] assms(1)
  show ?thesis by (auto simp: distinct_update)
next
  fix sock
  assume "server_rooms s' = registry (disconnect sock (server_rooms s))"
  with assms(1) show ?thesis
    by (simp add: disconnect_registry_keys distinct_keys_filter)
next
  fix d rc now k
  assume "server_rooms s' = registry (nextQuestion rc now (triviaQuestions ! k) (server_rooms s))"
  with nextQuestion_registry[of rc now "triviaQuestions ! k" "server_rooms s"] assms(1)
  show ?thesis by (auto simp: distinct_update)
next
  fix sock rc g
  assume "server_rooms s' = registry (start_game sock rc g (server_rooms s))"
  with start_game_registry[of sock rc g "server_rooms s"] assms(1)
  show ?thesis by (auto simp: distinct_update)
next
  fix sock rc p nm av
  assume "server_rooms s' = registry (join_room upper sock rc p nm av (server_rooms s))"
  with join_room_registry[of upper sock rc p nm av "server_rooms s"] assms(1)
  show ?thesis by (auto simp: distinct_update)
next
  fix sock cb r1 r2
  assume "server_rooms s' = registry (create_room sock cb r1 r2 (server_rooms s))"
  with assms(1) show ?thesis
    by (simp add: create_room_registry distinct_update)
qed

lemma run_append:
  "run upper s (es @ es') = (case run upper s es of Some (Inr s1) \<Rightarrow> run upper s1 es' | other \<Rightarrow> other)"
  by (induction es arbitrary: s) (auto split: option.splits sum.splits)

lemma reachable_step:
  assumes "reachable upper s" "step upper s e = Some (Inr s')"
  shows "reachable upper s'"
proof -
  from assms(1) obtain es where "run upper init_server es = Some (Inr s)"
    unfolding reachable_def by auto
  with assms(2) have "run upper init_server (es @ [e]) = Some (Inr s')"
    by (simp add: run_append)
  then show ?thesis unfolding reachable_def by (rule exI)
qed

lemma reachable_distinct_keys:
  "reachable upper s \<Longrightarrow> distinct (map fst (server_rooms s))"
  by (erule reachable_invariant) (simp_all add: init_server_def step_keeps_distinct_keys)

lemma reachable_server_after: "reachable upper (server_after upper es)"
proof (cases "run upper init_server es")
  case None
  then have "server_after upper es = init_server" by (simp add: server_after_def)
  moreover have "run upper init_server [] = Some (Inr init_server)" by simp
  ultimately show ?thesis unfolding reachable_def by metis
next
  case (Some res)
  show ?thesis
  proof (cases res)
    case (Inl c)
    with Some have "server_after upper es = init_server" by (simp add: server_after_def)
    moreover have "run upper init_server [] = Some (Inr init_server)" by simp
    ultimately show ?thesis unfolding reachable_def by metis
  next
    case (Inr s)
    with Some have "server_after upper es = s" by (simp add: server_after_def)
    with Some Inr show ?thesis unfolding reachable_def by auto
  qed
qed

lemma step_keeps_dispatch:
  assumes inv: "\<forall>e \<in> set (server_rooms s). (currentQuestion (snd e) \<noteq> None) = question_dispatched (snd e)"
    and step: "step upper s e = Some (Inr s')"
  shows "\<forall>e \<in> set (server_rooms s'). (currentQuestion (snd e) \<noteq> None) = question_dispatched (snd e)"
proof -
  let ?P = "\<lambda>r. (currentQuestion r \<noteq> None) = question_dispatched r"
  have upd: "\<forall>e \<in> set (AList.update k v (server_rooms s)). ?P (snd e)" if "?P v" for k v
    using inv that by (auto dest!: set_update_cases)
  have mem: "?P r" if "(c, r) \<in> set (server_rooms s)" for c r
    using inv that by force
  from step_rooms[OF step] show ?thesis
  proof (elim disjE exE conjE)
    fix sock p out
    assume out: "buzz_in sock p (server_rooms s) = Inr out" and s': "server_rooms s' = registry out"
    from buzz_in_registry[OF out] show ?thesis
    proof (elim disjE exE conjE)
      assume "registry out = server_rooms s"
      with inv s' show ?thesis by simp
    next
      fix roomCode room
      assume found: "find_room p (server_rooms s) = Some (roomCode, room)"
        and reg: "registry out = AList.update roomCode (room\<lparr>buzzedPlayer := Some p\<rparr>) (server_rooms s)"
      from mem[OF find_room_SomeD(1)[OF found]]
      have "?P (room\<lparr>buzzedPlayer := Some p\<rparr>)" by (simp add: question_dispatched_def)
      from upd[OF this] show ?thesis by (simp add: s' reg)
    qed
  next
    fix sock now p ans out
    assume out: "submit_answer sock now p ans (server_rooms s) = Inr out"
      and s': "server_rooms s' = registry out"
    from submit_answer_registry[OF out] show ?thesis
    proof (elim disjE exE conjE)
      assume "registry out = server_rooms s"
      with inv s' show ?thesis by simp
    next
      fix roomCode and room :: room and cq :: question and player :: player
      let ?room' = "room\<lparr>players := AList.update p
                        (if ans = a cq
                         then player\<lparr>score := score player + points_for True (timeElapsed now room)\<rparr>
                         else player) (players room),
                     answers := AList.update p
                        \<lparr>answer = ans, correct = (ans = a cq),
                         points = points_for (ans = a cq) (timeElapsed now room)\<rparr> (answers room)\<rparr>"
      assume found: "find_room p (server_rooms s) = Some (roomCode, room)"
        and reg: "registry out = AList.update roomCode ?room' (server_rooms s)"
      from mem[OF find_room_SomeD(1)[OF found]]
      have "?P ?room'" by (simp add: question_dispatched_def)
      from upd[OF this] show ?thesis by (simp add: s' reg)
    qed
  next
    fix sock
    assume "server_rooms s' = registry (disconnect sock (server_rooms s))"
    with inv show ?thesis
      by (auto simp: question_dispatched_def disconnect_outcome disconnect_loop_registry
          split: option.splits)
  next
    fix d rc now k
    assume s': "server_rooms s' = registry (nextQuestion rc now (triviaQuestions ! k) (server_rooms s))"
    from nextQuestion_registry[of rc now "triviaQuestions ! k" "server_rooms s"] show ?thesis
    proof (elim disjE exE conjE)
      assume "registry (nextQuestion rc now (triviaQuestions ! k) (server_rooms s)) = server_rooms s"
      with inv s' show ?thesis by simp
    next
      fix room
      assume room: "map_of (server_rooms s) rc = Some room"
        and reg: "registry (nextQuestion rc now (triviaQuestions ! k) (server_rooms s))
              = AList.update rc
                  (room\<lparr>questionNumber := questionNumber room + 1, gameState := ROUND_END\<rparr>)
                  (server_rooms s)"
      from mem[OF map_of_SomeD[OF room]]
      have "?P (room\<lparr>questionNumber := questionNumber room + 1, gameState := ROUND_END\<rparr>)"
        by (simp add: question_dispatched_def)
      from upd[OF this] show ?thesis by (simp add: s' reg)
    next
      fix room
      assume reg: "registry (nextQuestion rc now (triviaQuestions ! k) (server_rooms s))
              = AList.update rc
                  (room\<lparr>questionNumber := questionNumber room + 1,
                        currentQuestion := Some (triviaQuestions ! k), buzzedPlayer := None,
                        answers := [], questionStartTime := Some now\<rparr>) (server_rooms s)"
      have "?P (room\<lparr>questionNumber := questionNumber room + 1,
                        currentQuestion := Some (triviaQuestions ! k), buzzedPlayer := None,
                        answers := [], questionStartTime := Some now\<rparr>)"
        by (simp add: question_dispatched_def)
      from upd[OF this] show ?thesis by (simp add: s' reg)
    qed
  next
    fix sock rc g
    assume s': "server_rooms s' = registry (start_game sock rc g (server_rooms s))"
    from start_game_registry[of sock rc g "server_rooms s"] show ?thesis
    proof (elim disjE exE conjE)
      assume "registry (start_game sock rc g (server_rooms s)) = server_rooms s"
      with inv s' show ?thesis by simp
    next
      fix room :: room
      let ?room' = "room\<lparr>currentGame := Some g, gameState := PLAYING, questionNumber := 0,
                      players := map (\<lambda>(k, p). (k, p\<lparr>score := 0\<rparr>)) (players room)\<rparr>"
      assume room: "map_of (server_rooms s) rc = Some room"
        and reg: "registry (start_game sock rc g (server_rooms s))
                    = AList.update rc ?room' (server_rooms s)"
      from mem[OF map_of_SomeD[OF room]]
      have "?P ?room'" by (simp add: question_dispatched_def)
      from upd[OF this] show ?thesis by (simp add: s' reg)
    qed
  next
    fix sock rc p nm av
    assume s': "server_rooms s' = registry (join_room upper sock rc p nm av (server_rooms s))"
    from join_room_registry[of upper sock rc p nm av "server_rooms s"] show ?thesis
    proof (elim disjE exE conjE)
      assume "registry (join_room upper sock rc p nm av (server_rooms s)) = server_rooms s"
      with inv s' show ?thesis by simp
    next
      fix room :: room
      let ?room' = "room\<lparr>players := AList.update p
                        \<lparr>id_p = p, name = nm,
                         avatar = (if av = [] then default_avatar else av),
                         socketId = sock, score = 0\<rparr> (players room)\<rparr>"
      assume room: "map_of (server_rooms s) (toUpperCase upper rc) = Some room"
        and reg: "registry (join_room upper sock rc p nm av (server_rooms s))
                    = AList.update (toUpperCase upper rc) ?room' (server_rooms s)"
      from mem[OF map_of_SomeD[OF room]]
      have "?P ?room'" by (simp add: question_dispatched_def)
      from upd[OF this] show ?thesis by (simp add: s' reg)
    qed
  next
    fix sock cb r1 r2
    assume s': "server_rooms s' = registry (create_room sock cb r1 r2 (server_rooms s))"
    have "?P (new_room (generateRoomCode r1 r2) sock)"
      by (simp add: new_room_def question_dispatched_def)
    from upd[OF this] show ?thesis by (simp add: s' create_room_registry)
  qed
qed

lemma reachable_dispatch:
  assumes "reachable upper s"
  shows "\<forall>e \<in> set (server_rooms s). (currentQuestion (snd e) \<noteq> None) = question_dispatched (snd e)"
  using assms
proof (rule reachable_invariant)
  show "\<forall>e \<in> set (server_rooms init_server).
          (currentQuestion (snd e) \<noteq> None) = question_dispatched (snd e)"
    by (simp add: init_server_def)
qed (rule step_keeps_dispatch)

section \<open>Scores within a game\<close>

lemma points_for_nonneg: "0 \<le> points_for b e"
  by (cases b) (simp_all add: points_for_div, simp add: points_for_def)

lemma find_room_map_of:
  assumes "distinct (map fst rooms)" "find_room playerId rooms = Some (roomCode, room)"
  shows "map_of rooms roomCode = Some room"
  using assms(1) find_room_SomeD(1)[OF assms(2)] by simp

lemma player_score_update_other:
  "c \<noteq> k \<Longrightarrow> player_score (AList.update k v rooms) c p = player_score rooms c p"
  by (simp add: player_score_def map_of_update_other)

lemma player_score_update_same:
  "player_score (AList.update c v rooms) c p = map_option score (map_of (players v) p)"
  by (simp add: player_score_def map_of_update_same)

lemma player_score_room:
  "map_of rooms c = Some room \<Longrightarrow> player_score rooms c p = map_option score (map_of (players room) p)"
  by (simp add: player_score_def)

lemma disconnect_score:
  assumes keys: "distinct (map fst rooms)"
    and after: "player_score (registry (disconnect sock rooms)) c p = Some v'"
  shows "player_score rooms c p = Some v'"
proof -
  from after obtain r' pl where r': "map_of (registry (disconnect sock rooms)) c = Some r'"
    and pl: "map_of (players r') p = Some pl" and v': "score pl = v'"
    by (auto simp: player_score_def split: option.splits)
  from map_of_SomeD[OF r'] obtain e where e: "e \<in> set rooms" "fst e = c"
    and r'_def: "r' = (case find_player sock (snd e) of
                     None \<Rightarrow> snd e
                   | Some found \<Rightarrow> (snd e)\<lparr>players := AList.delete (fst found) (players (snd e))\<rparr>)"
    by (auto simp: disconnect_outcome disconnect_loop_registry)
  from keys e have room: "map_of rooms c = Some (snd e)"
    by (cases e) simp
  have "map_of (players (snd e)) p = Some pl"
    using pl by (auto simp: r'_def delete_conv' split: option.splits if_splits)
  with room v' show ?thesis by (simp add: player_score_def)
qed

lemma score_step_back:
  assumes reach: "reachable upper s"
    and step: "step upper s e = Some (Inr s')"
    and after: "player_score (server_rooms s') c p = Some v'"
    and nostart: "\<forall>sock game. e \<noteq> Start_game sock c game"
    and norejoin: "\<forall>sock rc nm av. toUpperCase upper rc = c \<longrightarrow> e \<noteq> Join_room sock rc p nm av"
  shows "\<exists>v. player_score (server_rooms s) c p = Some v \<and> v \<le> v'"
proof -
  note keys = reachable_distinct_keys[OF reach]
  from step_rooms[OF step] show ?thesis
  proof (elim disjE exE conjE)
    fix sock cb r1 r2
    assume s': "server_rooms s' = registry (create_room sock cb r1 r2 (server_rooms s))"
    show ?thesis
    proof (cases "c = generateRoomCode r1 r2")
      case True
      with after show ?thesis
        by (simp add: s' create_room_registry player_score_update_same new_room_def)
    next
      case False
      with after show ?thesis
        by (simp add: s' create_room_registry player_score_update_other)
    qed
  next
    fix sock rc p' nm av
    assume e: "e = Join_room sock rc p' nm av"
      and s': "server_rooms s' = registry (join_room upper sock rc p' nm av (server_rooms s))"
    from join_room_registry[of upper sock rc p' nm av "server_rooms s"] show ?thesis
    proof (elim disjE exE conjE)
      assume "registry (join_room upper sock rc p' nm av (server_rooms s)) = server_rooms s"
      with after s' show ?thesis by simp
    next
      fix room :: room
      let ?room' = "room\<lparr>players := AList.update p'
                        \<lparr>id_p = p', name = nm,
                         avatar = (if av = [] then default_avatar else av),
                         socketId = sock, score = 0\<rparr> (players room)\<rparr>"
      assume room: "map_of (server_rooms s) (toUpperCase upper rc) = Some room"
        and reg: "registry (join_room upper sock rc p' nm av (server_rooms s))
                    = AList.update (toUpperCase upper rc) ?room' (server_rooms s)"
      show ?thesis
      proof (cases "c = toUpperCase upper rc")
        case True
        with norejoin e have "p' \<noteq> p" by auto
        then have "player_score (server_rooms s') c p = player_score (server_rooms s) c p"
          using True room
          by (simp add: s' reg player_score_update_same player_score_room map_of_update_other)
        with after show ?thesis by simp
      next
        case False
        with after show ?thesis
          by (simp add: s' reg player_score_update_other)
      qed
    qed
  next
    fix sock rc g
    assume e: "e = Start_game sock rc g"
      and s': "server_rooms s' = registry (start_game sock rc g (server_rooms s))"
    from nostart e have "c \<noteq> rc" by auto
    with start_game_registry[of sock rc g "server_rooms s"] after s'
    show ?thesis by (auto simp: player_score_update_other)
  next
    fix sock p' out
    assume out: "buzz_in sock p' (server_rooms s) = Inr out" and s': "server_rooms s' = registry out"
    from buzz_in_registry[OF out] show ?thesis
    proof (elim disjE exE conjE)
      assume "registry out = server_rooms s"
      with after s' show ?thesis by simp
    next
      fix roomCode and room :: room
      assume found: "find_room p' (server_rooms s) = Some (roomCode, room)"
        and reg: "registry out = AList.update roomCode (room\<lparr>buzzedPlayer := Some p'\<rparr>) (server_rooms s)"
      have "player_score (server_rooms s') c p = player_score (server_rooms s) c p"
        using find_room_map_of[OF keys found]
        by (cases "c = roomCode")
           (simp_all add: s' reg player_score_update_same player_score_update_other player_score_room)
      with after show ?thesis by simp
    qed
  next
    fix sock now p' ans out
    assume out: "submit_answer sock now p' ans (server_rooms s) = Inr out"
      and s': "server_rooms s' = registry out"
    from submit_answer_registry[OF out] show ?thesis
    proof (elim disjE exE conjE)
      assume "registry out = server_rooms s"
      with after s' show ?thesis by simp
    next
      fix roomCode and room :: room and cq :: question and player :: player
      let ?player' = "if ans = a cq
                      then player\<lparr>score := score player + points_for True (timeElapsed now room)\<rparr>
                      else player"
      let ?room' = "room\<lparr>players := AList.update p' ?player' (players room),
                     answers := AList.update p'
                        \<lparr>answer = ans, correct = (ans = a cq),
                         points = points_for (ans = a cq) (timeElapsed now room)\<rparr> (answers room)\<rparr>"
      assume found: "find_room p' (server_rooms s) = Some (roomCode, room)"
        and pl: "map_of (players room) p' = Some player"
        and reg: "registry out = AList.update roomCode ?room' (server_rooms s)"
      note room = find_room_map_of[OF keys found]
      show ?thesis
      proof (cases "c = roomCode \<and> p = p'")
        case True
        with room pl have v: "player_score (server_rooms s) c p = Some (score player)"
          by (simp add: player_score_room)
        from after True have "v' = score ?player'"
          by (simp add: s' reg player_score_update_same map_of_update_same)
        with v points_for_nonneg[of True "timeElapsed now room"] show ?thesis
          by (simp split: if_splits)
      next
        case False
        have "player_score (server_rooms s') c p = player_score (server_rooms s) c p"
        proof (cases "c = roomCode")
          case True
          with False have "p \<noteq> p'" by simp
          with True room show ?thesis
            by (simp add: s' reg player_score_update_same player_score_room map_of_update_other)
        next
          case False
          then show ?thesis by (simp add: s' reg player_score_update_other)
        qed
        with after show ?thesis by simp
      qed
    qed
  next
    fix sock
    assume s': "server_rooms s' = registry (disconnect sock (server_rooms s))"
    from disconnect_score[OF keys after[unfolded s']] show ?thesis by simp
  next
    fix d rc now k
    assume s': "server_rooms s' = registry (nextQuestion rc now (triviaQuestions ! k) (server_rooms s))"
    from nextQuestion_registry[of rc now "triviaQuestions ! k" "server_rooms s"]
    have "player_score (server_rooms s') c p = player_score (server_rooms s) c p"
    proof (elim disjE exE conjE)
      assume "registry (nextQuestion rc now (triviaQuestions ! k) (server_rooms s)) = server_rooms s"
      then show ?thesis by (simp add: s')
    next
      fix room :: room
      assume room: "map_of (server_rooms s) rc = Some room"
        and reg: "registry (nextQuestion rc now (triviaQuestions ! k) (server_rooms s))
              = AList.update rc
                  (room\<lparr>questionNumber := questionNumber room + 1, gameState := ROUND_END\<rparr>)
                  (server_rooms s)"
      show ?thesis using room
        by (cases "c = rc")
           (simp_all add: s' reg player_score_update_same player_score_update_other player_score_room)
    next
      fix room :: room
      assume room: "map_of (server_rooms s) rc = Some room"
        and reg: "registry (nextQuestion rc now (triviaQuestions ! k) (server_rooms s))
              = AList.update rc
                  (room\<lparr>questionNumber := questionNumber room + 1,
                        currentQuestion := Some (triviaQuestions ! k), buzzedPlayer := None,
                        answers := [], questionStartTime := Some now\<rparr>) (server_rooms s)"
      show ?thesis using room
        by (cases "c = rc")
           (simp_all add: s' reg player_score_update_same player_score_update_other player_score_room)
    qed
    with after show ?thesis by simp
  qed
qed

lemma score_run_back:
  assumes "reachable upper s" and "run upper s es = Some (Inr s')"
    and "player_score (server_rooms s') c p = Some v'"
    and "\<forall>e \<in> set es. (\<forall>sock game. e \<noteq> Start_game sock c game)
           \<and> (\<forall>sock rc nm av. toUpperCase upper rc = c \<longrightarrow> e \<noteq> Join_room sock rc p nm av)"
  shows "\<exists>v. player_score (server_rooms s) c p = Some v \<and> v \<le> v'"
  using assms
proof (induction es arbitrary: s)
  case Nil
  then show ?case by simp
next
  case (Cons e es)
  from Cons.prems(2) obtain s1 where s1: "step upper s e = Some (Inr s1)"
    and rest: "run upper s1 es = Some (Inr s')"
    by (auto split: option.splits sum.splits)
  from Cons.prems(4) have allowed: "\<forall>sock game. e \<noteq> Start_game sock c game"
      "\<forall>sock rc nm av. toUpperCase upper rc = c \<longrightarrow> e \<noteq> Join_room sock rc p nm av"
    and later: "\<forall>e \<in> set es. (\<forall>sock game. e \<noteq> Start_game sock c game)
           \<and> (\<forall>sock rc nm av. toUpperCase upper rc = c \<longrightarrow> e \<noteq> Join_room sock rc p nm av)"
    by simp_all
  from Cons.IH[OF reachable_step[OF Cons.prems(1) s1] rest Cons.prems(3) later]
  obtain v1 where v1: "player_score (server_rooms s1) c p = Some v1" "v1 \<le> v'" by auto
  from score_step_back[OF Cons.prems(1) s1 v1(1) allowed]
  obtain v where "player_score (server_rooms s) c p = Some v" "v \<le> v1" by auto
  with v1(2) show ?case by auto
qed

lemma rejoin_resets_score:
  assumes "map_of rooms (toUpperCase upper rc) = Some room"
  shows "player_score (registry (join_room upper sock rc p nm av rooms)) (toUpperCase upper rc) p = Some 0"
  using assms
  by (simp add: join_room_def Let_def player_score_update_same map_of_update_same)

text \<open>
  Claim C9, as the code has it. Take any stretch of events from a reachable state in which
  nobody sends \<^verbatim>\<open>start_game\<close> for the room and nobody sends a \<^verbatim>\<open>join_room\<close> that re-uses
  the player's id in that room, that is, with a code that \<^verbatim>\<open>toUpperCase\<close> (whatever the
  Unicode case mapping does outside ASCII) turns into the room's code. A player who is in the room at the end was in the room
  at the beginning, with a score that was not higher: \<^verbatim>\<open>submit_answer\<close> adds the points,
  which are never negative, and every other handler leaves the scores alone. A
  \<^verbatim>\<open>join_room\<close> with an id already in the room replaces the player's record by a fresh
  one, so the score of that id is 0 afterwards, also in the middle of a game.
\<close>

theorem score_non_decreasing:
  "(reachable upper s \<and> run upper s es = Some (Inr s')
      \<and> player_score (server_rooms s') c p = Some v'
      \<and> (\<forall>e \<in> set es. (\<forall>sock game. e \<noteq> Start_game sock c game)
            \<and> (\<forall>sock rc nm av. toUpperCase upper rc = c \<longrightarrow> e \<noteq> Join_room sock rc p nm av))
    \<longrightarrow> (\<exists>v. player_score (server_rooms s) c p = Some v \<and> v \<le> v'))
   \<and> (map_of rooms (toUpperCase upper rc) = Some room \<longrightarrow>
        player_score (registry (join_room upper sock rc p nm av rooms)) (toUpperCase upper rc) p = Some 0)"
proof (intro conjI impI)
  assume h: "reachable upper s \<and> run upper s es = Some (Inr s')
      \<and> player_score (server_rooms s') c p = Some v'
      \<and> (\<forall>e \<in> set es. (\<forall>sock game. e \<noteq> Start_game sock c game)
            \<and> (\<forall>sock rc nm av. toUpperCase upper rc = c \<longrightarrow> e \<noteq> Join_room sock rc p nm av))"
  show "\<exists>v. player_score (server_rooms s) c p = Some v \<and> v \<le> v'"
    by (rule score_run_back[of upper s es s' c p v']) (use h in simp_all)
next
  assume "map_of rooms (toUpperCase upper rc) = Some room"
  then show "player_score (registry (join_room upper sock rc p nm av rooms)) (toUpperCase upper rc) p = Some 0"
    by (rule rejoin_resets_score)
qed

lemma rest_of_round_run:
  "run id (server_after id game_start) (first_answer # round_rest) = Some (Inr (server_after id full_round))"
  by code_simp

lemma score_before_answer:
  "player_score (server_rooms (server_after id game_start)) ''COOL-1234'' ''p1'' = Some 0"
  by code_simp

lemma score_after_round:
  "player_score (server_rooms (server_after id full_round)) ''COOL-1234'' ''p1'' = Some 960"
  by code_simp

lemma room_after_answer:
  "map_of (server_rooms (server_after id game_opening)) (toUpperCase id ''cool-1234'')
     = room_after id game_opening ''COOL-1234''"
  by code_simp

lemma room_after_answer_some:
  "map_option gameState (room_after id game_opening ''COOL-1234'') = Some PLAYING"
  by code_simp

theorem score_non_decreasing_witness:
  "reachable id (server_after id game_start)
   \<and> run id (server_after id game_start) (first_answer # round_rest) = Some (Inr (server_after id full_round))
   \<and> player_score (server_rooms (server_after id game_start)) ''COOL-1234'' ''p1'' = Some 0
   \<and> player_score (server_rooms (server_after id full_round)) ''COOL-1234'' ''p1'' = Some 960
   \<and> player_score (registry (join_room id ''s9'' ''cool-1234'' ''p1'' ''Ann'' ''''
          (server_rooms (server_after id game_opening)))) ''COOL-1234'' ''p1'' = Some 0"
proof -
  obtain room where room: "map_of (server_rooms (server_after id game_opening)) (toUpperCase id ''cool-1234'')
      = Some room"
    using room_after_answer_some unfolding room_after_answer[symmetric] by auto
  have allowed: "\<forall>e \<in> set (first_answer # round_rest).
      (\<forall>sock game. e \<noteq> Start_game sock ''COOL-1234'' game)
      \<and> (\<forall>sock rc nm av. toUpperCase id rc = ''COOL-1234'' \<longrightarrow> e \<noteq> Join_room sock rc ''p1'' nm av)"
    by (simp add: first_answer_def round_rest_def)
  from score_non_decreasing[where upper = id and s = "server_after id game_start"
      and es = "first_answer # round_rest" and s' = "server_after id full_round"
      and c = "''COOL-1234''" and p = "''p1''" and v' = 960
      and rooms = "server_rooms (server_after id game_opening)" and rc = "''cool-1234''"
      and room = room and sock = "''s9''" and nm = "''Ann''" and av = "''''"]
  show ?thesis
    using reachable_server_after[of id game_start] rest_of_round_run score_before_answer
      score_after_round room allowed
    by (simp add: toUpperCase_demo)
qed

text \<open>
  In the run below the player has 240 points after the first answer; the same player id
  then joins again from another connection while the game is on, and the score is 0.
\<close>

theorem score_reset_by_rejoin_counterexample:
  "player_score (server_rooms (server_after id game_opening)) ''COOL-1234'' ''p1'' = Some 240
   \<and> player_score (server_rooms (server_after id (game_opening @ [rejoin]))) ''COOL-1234'' ''p1'' = Some 0
   \<and> map_option gameState (room_after id (game_opening @ [rejoin]) ''COOL-1234'') = Some PLAYING"
  by code_simp

section \<open>Scheduling of the advance after a submission\<close>

text \<open>
  Claim C2. A \<^verbatim>\<open>submit_answer\<close> that finds no room, or a room without a current
  question, does nothing and schedules nothing. Every other submission records the answer
  under the player's id in the room's answer map (one entry more, or the same number when
  the player had answered before) and leaves the player map at its size; it schedules
  exactly one \<open>nextQuestion\<close> timer, 3000 ms ahead and for the room found, when the
  submitting player is the room's \<open>buzzedPlayer\<close> or when, with this submission recorded,
  the answer map and the player map have the same size; otherwise it schedules nothing.
\<close>

theorem submit_answer_advance:
  "(find_room playerId rooms = None
      \<or> (\<exists>roomCode room. find_room playerId rooms = Some (roomCode, room)
            \<and> currentQuestion room = None)
    \<longrightarrow> submit_answer sock now playerId ans rooms = Inr (no_op rooms))
   \<and> (\<forall>roomCode room. find_room playerId rooms = Some (roomCode, room)
          \<and> currentQuestion room \<noteq> None
        \<longrightarrow> (\<exists>out room'.
               submit_answer sock now playerId ans rooms = Inr out
             \<and> map_of (registry out) roomCode = Some room'
             \<and> buzzedPlayer room' = buzzedPlayer room
             \<and> length (players room') = length (players room)
             \<and> (\<exists>submission. answer submission = ans
                    \<and> answers room' = AList.update playerId submission (answers room))
             \<and> length (answers room')
                  = (if map_has (answers room) playerId then length (answers room)
                     else length (answers room) + 1)
             \<and> scheduled out =
                 (if buzzedPlayer room = Some playerId
                     \<or> length (answers room') = length (players room')
                  then [(3000, roomCode)] else [])))"
proof (intro conjI allI impI)
  assume "find_room playerId rooms = None
      \<or> (\<exists>roomCode room. find_room playerId rooms = Some (roomCode, room)
            \<and> currentQuestion room = None)"
  then show "submit_answer sock now playerId ans rooms = Inr (no_op rooms)"
    by (auto simp: submit_answer_def)
next
  fix roomCode room
  assume h: "find_room playerId rooms = Some (roomCode, room) \<and> currentQuestion room \<noteq> None"
  then obtain cq where found: "find_room playerId rooms = Some (roomCode, room)"
    and cq: "currentQuestion room = Some cq" by auto
  from find_room_SomeD(2)[OF found] obtain player where
    pl: "map_of (players room) playerId = Some player"
    by (auto simp: map_has_def)
  have has: "map_has (players room) playerId" by (simp add: map_has_def pl)
  define submission where
    "submission = \<lparr>answer = ans, correct = (ans = a cq),
                   points = points_for (ans = a cq) (timeElapsed now room)\<rparr>"
  define room' where
    "room' = room\<lparr>players := AList.update playerId
                     (if ans = a cq
                      then player\<lparr>score := score player + points_for True (timeElapsed now room)\<rparr>
                      else player) (players room),
                  answers := AList.update playerId submission (answers room)\<rparr>"
  define out where
    "out = \<lparr>registry = AList.update roomCode room' rooms,
          emitted = [(Sender, AnswerResult (ans = a cq) (points_for (ans = a cq) (timeElapsed now room))
                        (a cq) (if ans = a cq then score player + points_for True (timeElapsed now room)
                                else score player)),
                     (To (host room), AnswerSubmitted playerId (name player) (ans = a cq)
                        (points_for (ans = a cq) (timeElapsed now room)) ans)],
          scheduled = (if buzzedPlayer room = Some playerId
                          \<or> length (answers room') = length (players room')
                       then [(3000, roomCode)] else [])\<rparr>"
  have run: "submit_answer sock now playerId ans rooms = Inr out"
    unfolding submit_answer_found[OF found cq pl] out_def room'_def submission_def by simp
  have reg: "map_of (registry out) roomCode = Some room'"
    by (simp add: out_def map_of_update_same)
  have bz: "buzzedPlayer room' = buzzedPlayer room"
    by (simp add: room'_def)
  have np: "length (players room') = length (players room)"
    by (simp add: room'_def length_update has)
  have rec: "\<exists>submission. answer submission = ans
                    \<and> answers room' = AList.update playerId submission (answers room)"
    by (rule exI[of _ submission]) (simp add: room'_def submission_def)
  have na: "length (answers room')
                  = (if map_has (answers room) playerId then length (answers room)
                     else length (answers room) + 1)"
    by (simp add: room'_def length_update)
  have sch: "scheduled out =
                 (if buzzedPlayer room = Some playerId
                     \<or> length (answers room') = length (players room')
                  then [(3000, roomCode)] else [])"
    by (simp add: out_def)
  show "\<exists>out room'.
               submit_answer sock now playerId ans rooms = Inr out
             \<and> map_of (registry out) roomCode = Some room'
             \<and> buzzedPlayer room' = buzzedPlayer room
             \<and> length (players room') = length (players room)
             \<and> (\<exists>submission. answer submission = ans
                    \<and> answers room' = AList.update playerId submission (answers room))
             \<and> length (answers room')
                  = (if map_has (answers room) playerId then length (answers room)
                     else length (answers room) + 1)
             \<and> scheduled out =
                 (if buzzedPlayer room = Some playerId
                     \<or> length (answers room') = length (players room')
                  then [(3000, roomCode)] else [])"
    by (rule exI[of _ out], rule exI[of _ room'])
       (intro conjI, (fact run reg bz np rec na sch)+)
qed

lemma demo_buzzed_find_p1:
  "find_room ''p1'' [(''COOL-1234'', demo_room_buzzed)] = Some (''COOL-1234'', demo_room_buzzed)"
  by (simp add: find_room_def demo_room_buzzed_def demo_room_def map_has_def)

lemma demo_one_answered_find_p1:
  "find_room ''p1'' [(''COOL-1234'', demo_room_one_answered)]
     = Some (''COOL-1234'', demo_room_one_answered)"
  by (simp add: find_room_def demo_room_one_answered_def demo_room_def map_has_def)

theorem submit_answer_advance_witness:
  "(\<exists>out. submit_answer ''s1'' 6000 ''p1'' ''1999'' [(''COOL-1234'', demo_room_buzzed)] = Inr out
      \<and> scheduled out = [(3000, ''COOL-1234'')])
   \<and> (\<exists>out. submit_answer ''s1'' 6000 ''p1'' ''2007'' demo_rooms = Inr out
      \<and> scheduled out = [])
   \<and> (\<exists>out. submit_answer ''s1'' 6000 ''p1'' ''2007'' [(''COOL-1234'', demo_room_one_answered)] = Inr out
      \<and> scheduled out = [(3000, ''COOL-1234'')])
   \<and> submit_answer ''s9'' 6000 ''p9'' ''2007'' demo_rooms = Inr (no_op demo_rooms)"
proof (intro conjI)
  have cq: "currentQuestion demo_room_buzzed \<noteq> None"
    by (simp add: demo_room_buzzed_def demo_room_def)
  have bz: "buzzedPlayer demo_room_buzzed = Some ''p1''"
    by (simp add: demo_room_buzzed_def)
  from submit_answer_advance[of "''p1''" "[(''COOL-1234'', demo_room_buzzed)]" "''s1''" 6000 "''1999''"]
    demo_buzzed_find_p1 cq bz
  show "\<exists>out. submit_answer ''s1'' 6000 ''p1'' ''1999'' [(''COOL-1234'', demo_room_buzzed)] = Inr out
      \<and> scheduled out = [(3000, ''COOL-1234'')]"
    by auto
next
  have cq: "currentQuestion demo_room \<noteq> None"
    by (simp add: demo_room_def)
  have bz: "buzzedPlayer demo_room = None" and np: "length (players demo_room) = 2"
    and na: "answers demo_room = []" and nh: "\<not> map_has (answers demo_room) ''p1''"
    by (simp_all add: demo_room_def map_has_def)
  from submit_answer_advance[of "''p1''" demo_rooms "''s1''" 6000 "''2007''"]
    demo_find_p1 cq bz np na nh
  show "\<exists>out. submit_answer ''s1'' 6000 ''p1'' ''2007'' demo_rooms = Inr out
      \<and> scheduled out = []"
    by auto
next
  have cq: "currentQuestion demo_room_one_answered \<noteq> None"
    by (simp add: demo_room_one_answered_def demo_room_def)
  have bz: "buzzedPlayer demo_room_one_answered = None"
    and np: "length (players demo_room_one_answered) = 2"
    and na: "length (answers demo_room_one_answered) = 1"
    and nh: "\<not> map_has (answers demo_room_one_answered) ''p1''"
    by (simp_all add: demo_room_one_answered_def demo_room_def map_has_def)
  from submit_answer_advance[of "''p1''" "[(''COOL-1234'', demo_room_one_answered)]" "''s1''" 6000
      "''2007''"]
    demo_one_answered_find_p1 cq bz np na nh
  show "\<exists>out. submit_answer ''s1'' 6000 ''p1'' ''2007'' [(''COOL-1234'', demo_room_one_answered)] = Inr out
      \<and> scheduled out = [(3000, ''COOL-1234'')]"
    by auto
next
  have "find_room ''p9'' demo_rooms = None"
    by (simp add: find_room_def demo_rooms_def demo_room_def map_has_def)
  with submit_answer_advance[of "''p9''" demo_rooms "''s9''" 6000 "''2007''"]
  show "submit_answer ''s9'' 6000 ''p9'' ''2007'' demo_rooms = Inr (no_op demo_rooms)"
    by simp
qed

section \<open>When a room has a current question\<close>

lemma sends_question_nextQuestion:
  "sends_question (nextQuestion roomCode now question rooms)
     = (\<exists>room. map_of rooms roomCode = Some room \<and> \<not> questionNumber room + 1 > 5)"
  by (auto simp: sends_question_def nextQuestion_def no_op_def Let_def split: option.splits)

lemma disconnect_room_fields:
  assumes "(c, r') \<in> set (registry (disconnect sock rooms))"
  shows "\<exists>r. (c, r) \<in> set rooms \<and> currentQuestion r' = currentQuestion r"
proof -
  from assms obtain e where e: "e \<in> set rooms" "c = fst e"
    and r': "r' = (case find_player sock (snd e) of
                     None \<Rightarrow> snd e
                   | Some found \<Rightarrow> (snd e)\<lparr>players := AList.delete (fst found) (players (snd e))\<rparr>)"
    by (auto simp: disconnect_outcome disconnect_loop_registry)
  have "currentQuestion r' = currentQuestion (snd e)"
    by (simp add: r' split: option.splits)
  with e show ?thesis by (intro exI[of _ "snd e"]) simp
qed

text \<open>
  The invariant that ties the field to the history: the registry's keys are distinct, and
  a room has a current question exactly when its code is in the list of codes that were
  sent a question.
\<close>

lemma step_keeps_history:
  assumes keys: "distinct (map fst (server_rooms s))"
    and inv: "\<forall>c r. map_of (server_rooms s) c = Some r
                \<longrightarrow> (currentQuestion r \<noteq> None) = (c \<in> set sent)"
    and step: "step upper s e = Some (Inr s')"
  shows "\<forall>c r. map_of (server_rooms s') c = Some r
           \<longrightarrow> (currentQuestion r \<noteq> None) = (c \<in> set (record_dispatch s e sent))"
proof -
  have upd: "\<forall>c r. map_of (AList.update k v (server_rooms s)) c = Some r
               \<longrightarrow> (currentQuestion r \<noteq> None) = (c \<in> set sent)"
    if "(currentQuestion v \<noteq> None) = (k \<in> set sent)" for k v
    using inv that by (auto simp: update_conv' split: if_splits)
  have same: "(currentQuestion room' \<noteq> None) = (k \<in> set sent)"
    if "map_of (server_rooms s) k = Some room" "currentQuestion room' = currentQuestion room"
    for k and room room' :: room
    using inv that by auto
  from step_rooms[OF step] show ?thesis
  proof (elim disjE exE conjE)
    fix sock cb r1 r2
    assume e: "e = Create_room sock cb r1 r2"
      and s': "server_rooms s' = registry (create_room sock cb r1 r2 (server_rooms s))"
    show ?thesis
      using inv
      by (auto simp: e s' create_room_registry update_conv' record_dispatch_def new_room_def
          split: if_splits)
  next
    fix sock rc p nm av
    assume e: "e = Join_room sock rc p nm av"
      and s': "server_rooms s' = registry (join_room upper sock rc p nm av (server_rooms s))"
    have rd: "record_dispatch s e sent = sent" by (simp add: e record_dispatch_def)
    from join_room_registry[of upper sock rc p nm av "server_rooms s"] show ?thesis
    proof (elim disjE exE conjE)
      assume "registry (join_room upper sock rc p nm av (server_rooms s)) = server_rooms s"
      with inv s' rd show ?thesis by simp
    next
      fix room :: room
      let ?room' = "room\<lparr>players := AList.update p
                        \<lparr>id_p = p, name = nm,
                         avatar = (if av = [] then default_avatar else av),
                         socketId = sock, score = 0\<rparr> (players room)\<rparr>"
      assume room: "map_of (server_rooms s) (toUpperCase upper rc) = Some room"
        and reg: "registry (join_room upper sock rc p nm av (server_rooms s))
                    = AList.update (toUpperCase upper rc) ?room' (server_rooms s)"
      have "(currentQuestion ?room' \<noteq> None) = (toUpperCase upper rc \<in> set sent)"
        by (rule same[OF room]) simp
      from upd[OF this] show ?thesis by (simp add: s' reg rd)
    qed
  next
    fix sock rc g
    assume e: "e = Start_game sock rc g"
      and s': "server_rooms s' = registry (start_game sock rc g (server_rooms s))"
    have rd: "record_dispatch s e sent = sent" by (simp add: e record_dispatch_def)
    from start_game_registry[of sock rc g "server_rooms s"] show ?thesis
    proof (elim disjE exE conjE)
      assume "registry (start_game sock rc g (server_rooms s)) = server_rooms s"
      with inv s' rd show ?thesis by simp
    next
      fix room :: room
      let ?room' = "room\<lparr>currentGame := Some g, gameState := PLAYING, questionNumber := 0,
                      players := map (\<lambda>(k, p). (k, p\<lparr>score := 0\<rparr>)) (players room)\<rparr>"
      assume room: "map_of (server_rooms s) rc = Some room"
        and reg: "registry (start_game sock rc g (server_rooms s))
                    = AList.update rc ?room' (server_rooms s)"
      have "(currentQuestion ?room' \<noteq> None) = (rc \<in> set sent)"
        by (rule same[OF room]) simp
      from upd[OF this] show ?thesis by (simp add: s' reg rd)
    qed
  next
    fix sock p out
    assume e: "e = Buzz_in sock p"
      and out: "buzz_in sock p (server_rooms s) = Inr out" and s': "server_rooms s' = registry out"
    have rd: "record_dispatch s e sent = sent" by (simp add: e record_dispatch_def)
    from buzz_in_registry[OF out] show ?thesis
    proof (elim disjE exE conjE)
      assume "registry out = server_rooms s"
      with inv s' rd show ?thesis by simp
    next
      fix roomCode and room :: room
      assume found: "find_room p (server_rooms s) = Some (roomCode, room)"
        and reg: "registry out = AList.update roomCode (room\<lparr>buzzedPlayer := Some p\<rparr>) (server_rooms s)"
      have "(currentQuestion (room\<lparr>buzzedPlayer := Some p\<rparr>) \<noteq> None) = (roomCode \<in> set sent)"
        by (rule same[OF find_room_map_of[OF keys found]]) simp
      from upd[OF this] show ?thesis by (simp add: s' reg rd)
    qed
  next
    fix sock now p ans out
    assume e: "e = Submit_answer sock now p ans"
      and out: "submit_answer sock now p ans (server_rooms s) = Inr out"
      and s': "server_rooms s' = registry out"
    have rd: "record_dispatch s e sent = sent" by (simp add: e record_dispatch_def)
    from submit_answer_registry[OF out] show ?thesis
    proof (elim disjE exE conjE)
      assume "registry out = server_rooms s"
      with inv s' rd show ?thesis by simp
    next
      fix roomCode and room :: room and cq :: question and player :: player
      let ?room' = "room\<lparr>players := AList.update p
                        (if ans = a cq
                         then player\<lparr>score := score player + points_for True (timeElapsed now room)\<rparr>
                         else player) (players room),
                     answers := AList.update p
                        \<lparr>answer = ans, correct = (ans = a cq),
                         points = points_for (ans = a cq) (timeElapsed now room)\<rparr> (answers room)\<rparr>"
      assume found: "find_room p (server_rooms s) = Some (roomCode, room)"
        and reg: "registry out = AList.update roomCode ?room' (server_rooms s)"
      have "(currentQuestion ?room' \<noteq> None) = (roomCode \<in> set sent)"
        by (rule same[OF find_room_map_of[OF keys found]]) simp
      from upd[OF this] show ?thesis by (simp add: s' reg rd)
    qed
  next
    fix sock
    assume e: "e = Disconnect sock"
      and s': "server_rooms s' = registry (disconnect sock (server_rooms s))"
    have rd: "record_dispatch s e sent = sent" by (simp add: e record_dispatch_def)
    show ?thesis
    proof (intro allI impI)
      fix c r'
      assume "map_of (server_rooms s') c = Some r'"
      then have "(c, r') \<in> set (registry (disconnect sock (server_rooms s)))"
        unfolding s' by (rule map_of_SomeD)
      from disconnect_room_fields[OF this] obtain r where
        r: "(c, r) \<in> set (server_rooms s)" "currentQuestion r' = currentQuestion r" by auto
      from keys r(1) have "map_of (server_rooms s) c = Some r" by simp
      with inv r(2) show "(currentQuestion r' \<noteq> None) = (c \<in> set (record_dispatch s e sent))"
        by (simp add: rd)
    qed
  next
    fix d rc now k
    assume e: "e = Fire d rc now k"
      and s': "server_rooms s' = registry (nextQuestion rc now (triviaQuestions ! k) (server_rooms s))"
    show ?thesis
    proof (cases "map_of (server_rooms s) rc")
      case None
      have rd: "record_dispatch s e sent = sent"
        using None by (simp add: e record_dispatch_def sends_question_nextQuestion)
      have "server_rooms s' = server_rooms s"
        using None by (simp add: s' nextQuestion_def no_op_def)
      with inv rd show ?thesis by simp
    next
      case (Some room)
      show ?thesis
      proof (cases "questionNumber room + 1 > 5")
        case True
        have rd: "record_dispatch s e sent = sent"
          using Some True by (simp add: e record_dispatch_def sends_question_nextQuestion)
        have reg: "server_rooms s' = AList.update rc
            (room\<lparr>questionNumber := questionNumber room + 1, gameState := ROUND_END\<rparr>) (server_rooms s)"
          using Some True by (simp add: s' nextQuestion_def Let_def)
        have "(currentQuestion (room\<lparr>questionNumber := questionNumber room + 1,
                  gameState := ROUND_END\<rparr>) \<noteq> None) = (rc \<in> set sent)"
          by (rule same[OF Some]) simp
        from upd[OF this] show ?thesis by (simp add: reg rd)
      next
        case False
        have rd: "record_dispatch s e sent = rc # sent"
          using Some False by (simp add: e record_dispatch_def sends_question_nextQuestion)
        have reg: "server_rooms s' = AList.update rc
            (room\<lparr>questionNumber := questionNumber room + 1,
                  currentQuestion := Some (triviaQuestions ! k), buzzedPlayer := None,
                  answers := [], questionStartTime := Some now\<rparr>) (server_rooms s)"
          using Some False by (simp add: s' nextQuestion_def Let_def)
        show ?thesis
          using inv by (auto simp: reg rd update_conv' split: if_splits)
      qed
    qed
  qed
qed

lemma run_keeps_history:
  assumes "distinct (map fst (server_rooms s))"
    and "\<forall>c r. map_of (server_rooms s) c = Some r
            \<longrightarrow> (currentQuestion r \<noteq> None) = (c \<in> set sent)"
    and "run upper s es = Some (Inr s')"
  shows "\<forall>c r. map_of (server_rooms s') c = Some r
           \<longrightarrow> (currentQuestion r \<noteq> None) = (c \<in> set (dispatched_to upper s es sent))"
  using assms
proof (induction es arbitrary: s sent)
  case Nil
  then show ?case by simp
next
  case (Cons e es)
  from Cons.prems(3) obtain s1 where s1: "step upper s e = Some (Inr s1)"
    and rest: "run upper s1 es = Some (Inr s')"
    by (auto split: option.splits sum.splits)
  note keys1 = step_keeps_distinct_keys[OF Cons.prems(1) s1]
  note inv1 = step_keeps_history[OF Cons.prems(1) Cons.prems(2) s1]
  from Cons.IH[OF keys1 inv1 rest] s1 show ?case by simp
qed

lemma record_dispatch_keeps:
  assumes "c \<in> set sent"
    and "\<forall>sock cb r1 r2. e = Create_room sock cb r1 r2 \<longrightarrow> generateRoomCode r1 r2 \<noteq> c"
  shows "c \<in> set (record_dispatch s e sent)"
  using assms by (cases e) (simp_all add: record_dispatch_def)

lemma dispatched_to_keeps:
  assumes "c \<in> set sent"
    and "\<forall>e \<in> set es. \<forall>sock cb r1 r2. e = Create_room sock cb r1 r2 \<longrightarrow> generateRoomCode r1 r2 \<noteq> c"
  shows "c \<in> set (dispatched_to upper s es sent)"
  using assms
proof (induction es arbitrary: s sent)
  case Nil
  then show ?case by simp
next
  case (Cons e es)
  from Cons.prems(2) have now: "\<forall>sock cb r1 r2. e = Create_room sock cb r1 r2 \<longrightarrow> generateRoomCode r1 r2 \<noteq> c"
    and later: "\<forall>e \<in> set es. \<forall>sock cb r1 r2. e = Create_room sock cb r1 r2 \<longrightarrow> generateRoomCode r1 r2 \<noteq> c"
    by simp_all
  show ?case
  proof (cases "step upper s e")
    case None
    with Cons.prems(1) show ?thesis by simp
  next
    case (Some res)
    show ?thesis
    proof (cases res)
      case (Inl crash)
      with Some Cons.prems(1) show ?thesis by simp
    next
      case (Inr s1)
      from Cons.IH[OF record_dispatch_keeps[OF Cons.prems(1) now] later, of s1 s]
      show ?thesis using Some Inr by simp
    qed
  qed
qed

lemma currentQuestion_history:
  assumes "run upper init_server es = Some (Inr s)" and "map_of (server_rooms s) c = Some r"
  shows "(currentQuestion r \<noteq> None) = (c \<in> set (dispatched_to upper init_server es []))"
proof -
  have "\<forall>c r. map_of (server_rooms s) c = Some r
           \<longrightarrow> (currentQuestion r \<noteq> None) = (c \<in> set (dispatched_to upper init_server es []))"
    by (rule run_keeps_history[OF _ _ assms(1)]) (simp_all add: init_server_def)
  with assms(2) show ?thesis by blast
qed

lemma currentQuestion_stays:
  assumes reach: "reachable upper s"
    and run: "run upper s es = Some (Inr s')"
    and before: "map_of (server_rooms s) c = Some r" "currentQuestion r \<noteq> None"
    and after: "map_of (server_rooms s') c = Some r'"
    and nocreate: "\<forall>e \<in> set es. \<forall>sock cb r1 r2.
                     e = Create_room sock cb r1 r2 \<longrightarrow> generateRoomCode r1 r2 \<noteq> c"
  shows "currentQuestion r' \<noteq> None"
proof -
  note keys = reachable_distinct_keys[OF reach]
  define sent where
    "sent = map fst (filter (\<lambda>e. currentQuestion (snd e) \<noteq> None) (server_rooms s))"
  have inv: "\<forall>c r. map_of (server_rooms s) c = Some r
               \<longrightarrow> (currentQuestion r \<noteq> None) = (c \<in> set sent)"
  proof (intro allI impI)
    fix c0 r0
    assume r0: "map_of (server_rooms s) c0 = Some r0"
    show "(currentQuestion r0 \<noteq> None) = (c0 \<in> set sent)"
    proof
      assume "currentQuestion r0 \<noteq> None"
      with map_of_SomeD[OF r0] show "c0 \<in> set sent"
        unfolding sent_def by force
    next
      assume "c0 \<in> set sent"
      then obtain r1 where r1: "(c0, r1) \<in> set (server_rooms s)" "currentQuestion r1 \<noteq> None"
        unfolding sent_def by auto
      from keys r1(1) have "map_of (server_rooms s) c0 = Some r1" by simp
      with r0 r1(2) show "currentQuestion r0 \<noteq> None" by simp
    qed
  qed
  from inv before have "c \<in> set sent" by blast
  from dispatched_to_keeps[OF this nocreate]
  have "c \<in> set (dispatched_to upper s es sent)" .
  with run_keeps_history[OF keys inv run] after show ?thesis by blast
qed

text \<open>
  The run below is a whole game with one player: the room is created, the player joins,
  the host starts the game, and each of the five questions is dispatched by its timer and
  answered; the sixth firing of the timer ends the round.
\<close>

lemma full_round_room:
  "room_after id full_round ''COOL-1234''
     = Some \<lparr>code = ''COOL-1234'', host = ''tv'',
             players = [(''p1'', \<lparr>id_p = ''p1'', name = ''Ann'', avatar = default_avatar,
                                  socketId = ''s1'', score = 960\<rparr>)],
             gameState = ROUND_END, currentGame = Some ''trivia'',
             currentQuestion = Some (triviaQuestions ! 4), questionNumber = 6,
             buzzedPlayer = None,
             answers = [(''p1'', \<lparr>answer = ''3'', correct = True, points = 240\<rparr>)],
             questionStartTime = Some 21000\<rparr>"
  by code_simp

text \<open>
  Claim C3, as the code has it. A room's \<open>currentQuestion\<close> is set if and only if
  \<open>nextQuestion\<close> has sent a question to the room since the room was created under its
  code, whatever its \<open>gameState\<close>. No handler resets \<open>currentQuestion\<close> to null: over any
  stretch of events in which the code is not given to a newly created room, a room that
  has a current question at the beginning and is still in the registry at the end has a
  current question at the end. In particular the transition to \<open>ROUND_END\<close> leaves
  \<open>currentQuestion\<close> as it was, holding the last question of the round. The field is
  written together with \<open>questionStartTime\<close>: one is null exactly when the other is.
\<close>

theorem currentQuestion_kept:
  "(run upper init_server es0 = Some (Inr s0) \<and> map_of (server_rooms s0) c0 = Some r0 \<longrightarrow>
      (currentQuestion r0 \<noteq> None) = (c0 \<in> set (dispatched_to upper init_server es0 [])))
   \<and> (reachable upper s \<and> run upper s es = Some (Inr s')
        \<and> map_of (server_rooms s) c = Some r \<and> currentQuestion r \<noteq> None
        \<and> map_of (server_rooms s') c = Some r'
        \<and> (\<forall>e \<in> set es. \<forall>sock cb r1 r2.
              e = Create_room sock cb r1 r2 \<longrightarrow> generateRoomCode r1 r2 \<noteq> c)
      \<longrightarrow> currentQuestion r' \<noteq> None)
   \<and> (map_of rooms roomCode = Some room \<and> questionNumber room + 1 > 5 \<longrightarrow>
        (\<exists>room'. map_of (registry (nextQuestion roomCode now question rooms)) roomCode = Some room'
           \<and> gameState room' = ROUND_END
           \<and> currentQuestion room' = currentQuestion room))
   \<and> (reachable upper s \<longrightarrow>
        (\<forall>e \<in> set (server_rooms s).
           (currentQuestion (snd e) \<noteq> None) = question_dispatched (snd e)))"
proof (intro conjI impI)
  assume "run upper init_server es0 = Some (Inr s0) \<and> map_of (server_rooms s0) c0 = Some r0"
  then show "(currentQuestion r0 \<noteq> None) = (c0 \<in> set (dispatched_to upper init_server es0 []))"
    using currentQuestion_history[of upper es0 s0 c0 r0] by simp
next
  assume h: "reachable upper s \<and> run upper s es = Some (Inr s')
        \<and> map_of (server_rooms s) c = Some r \<and> currentQuestion r \<noteq> None
        \<and> map_of (server_rooms s') c = Some r'
        \<and> (\<forall>e \<in> set es. \<forall>sock cb r1 r2.
              e = Create_room sock cb r1 r2 \<longrightarrow> generateRoomCode r1 r2 \<noteq> c)"
  show "currentQuestion r' \<noteq> None"
    by (rule currentQuestion_stays[of upper s es s' c r r']) (use h in simp_all)
next
  assume "map_of rooms roomCode = Some room \<and> questionNumber room + 1 > 5"
  then show "\<exists>room'. map_of (registry (nextQuestion roomCode now question rooms)) roomCode = Some room'
           \<and> gameState room' = ROUND_END
           \<and> currentQuestion room' = currentQuestion room"
    by (simp add: nextQuestion_def Let_def map_of_update_same)
next
  assume "reachable upper s"
  then show "\<forall>e \<in> set (server_rooms s).
         (currentQuestion (snd e) \<noteq> None) = question_dispatched (snd e)"
    by (rule reachable_dispatch)
qed

lemma full_round_run:
  "run id init_server full_round = Some (Inr (server_after id full_round))"
  by code_simp

lemma full_round_rooms:
  "map fst (server_rooms (server_after id full_round)) = [''COOL-1234'']"
  by code_simp

lemma full_round_lookup:
  "map_of (server_rooms (server_after id full_round)) ''COOL-1234''
     = room_after id full_round ''COOL-1234''"
  by code_simp

lemma full_round_history:
  "dispatched_to id init_server full_round []
     = [''COOL-1234'', ''COOL-1234'', ''COOL-1234'', ''COOL-1234'', ''COOL-1234'']"
  by code_simp

lemma round_rest_run:
  "run id (server_after id game_opening) round_rest = Some (Inr (server_after id full_round))"
  by code_simp

lemma opening_question:
  "map_option currentQuestion (map_of (server_rooms (server_after id game_opening)) ''COOL-1234'')
     = Some (Some (hd triviaQuestions))"
  by code_simp

theorem currentQuestion_kept_witness:
  "run id init_server full_round = Some (Inr (server_after id full_round))
   \<and> map_option gameState (map_of (server_rooms (server_after id full_round)) ''COOL-1234'')
       = Some ROUND_END
   \<and> map_option currentQuestion (map_of (server_rooms (server_after id full_round)) ''COOL-1234'')
       = Some (Some (triviaQuestions ! 4))
   \<and> ''COOL-1234'' \<in> set (dispatched_to id init_server full_round [])
   \<and> reachable id (server_after id game_opening)
   \<and> run id (server_after id game_opening) round_rest = Some (Inr (server_after id full_round))
   \<and> map (\<lambda>e. (currentQuestion (snd e) \<noteq> None) = question_dispatched (snd e))
          (server_rooms (server_after id full_round)) = [True]
   \<and> (\<exists>room'. map_of (registry (nextQuestion ''COOL-1234'' 25000 (triviaQuestions ! 5)
                        [(''COOL-1234'', demo_room_last)])) ''COOL-1234'' = Some room'
         \<and> gameState room' = ROUND_END
         \<and> currentQuestion room' = Some (hd triviaQuestions))"
proof -
  obtain r0 where r0: "map_of (server_rooms (server_after id game_opening)) ''COOL-1234'' = Some r0"
    and cq0: "currentQuestion r0 \<noteq> None"
    using opening_question by auto
  obtain rf where rf: "map_of (server_rooms (server_after id full_round)) ''COOL-1234'' = Some rf"
    and gs: "gameState rf = ROUND_END" and cqf: "currentQuestion rf = Some (triviaQuestions ! 4)"
    unfolding full_round_lookup full_round_room by simp
  have nocreate: "\<forall>e \<in> set round_rest. \<forall>sock cb r1 r2.
      e = Create_room sock cb r1 r2 \<longrightarrow> generateRoomCode r1 r2 \<noteq> ''COOL-1234''"
    by (simp add: round_rest_def)
  have n: "questionNumber demo_room_last + 1 > 5"
    by (simp add: demo_room_last_def)
  have cq: "currentQuestion demo_room_last = Some (hd triviaQuestions)"
    by (simp add: demo_room_last_def demo_room_def)
  have last: "map_of [(''COOL-1234'', demo_room_last)] ''COOL-1234'' = Some demo_room_last"
    by simp
  note reach0 = reachable_server_after[of id game_opening]
  note reachf = reachable_server_after[of id full_round]
  note kept = currentQuestion_kept[where upper = id and ?es0.0 = full_round
      and ?s0.0 = "server_after id full_round" and ?c0.0 = "''COOL-1234''" and ?r0.0 = rf
      and s = "server_after id game_opening" and es = round_rest
      and s' = "server_after id full_round" and c = "''COOL-1234''" and r = r0 and r' = rf
      and rooms = "[(''COOL-1234'', demo_room_last)]" and roomCode = "''COOL-1234''"
      and room = demo_room_last and now = 25000 and question = "triviaQuestions ! 5"]
  from kept[THEN conjunct1] full_round_run rf cqf
  have hist: "''COOL-1234'' \<in> set (dispatched_to id init_server full_round [])"
    by simp
  have "reachable id (server_after id game_opening)
        \<and> run id (server_after id game_opening) round_rest = Some (Inr (server_after id full_round))
        \<and> map_of (server_rooms (server_after id game_opening)) ''COOL-1234'' = Some r0
        \<and> currentQuestion r0 \<noteq> None
        \<and> map_of (server_rooms (server_after id full_round)) ''COOL-1234'' = Some rf
        \<and> (\<forall>e \<in> set round_rest. \<forall>sock cb r1 r2.
              e = Create_room sock cb r1 r2 \<longrightarrow> generateRoomCode r1 r2 \<noteq> ''COOL-1234'')"
    by (intro conjI) (fact reach0 round_rest_run r0 cq0 rf nocreate)+
  with kept[THEN conjunct2, THEN conjunct1] have stays: "currentQuestion rf \<noteq> None"
    by (rule mp)
  from kept[THEN conjunct2, THEN conjunct2, THEN conjunct1] last n
  have "\<exists>room'. map_of (registry (nextQuestion ''COOL-1234'' 25000 (triviaQuestions ! 5)
                        [(''COOL-1234'', demo_room_last)])) ''COOL-1234'' = Some room'
         \<and> gameState room' = ROUND_END
         \<and> currentQuestion room' = currentQuestion demo_room_last"
    by (rule mp[OF _ conjI])
  then have ending: "\<exists>room'. map_of (registry (nextQuestion ''COOL-1234'' 25000 (triviaQuestions ! 5)
                        [(''COOL-1234'', demo_room_last)])) ''COOL-1234'' = Some room'
         \<and> gameState room' = ROUND_END
         \<and> currentQuestion room' = Some (hd triviaQuestions)"
    unfolding cq .
  from currentQuestion_kept[where upper = id and s = "server_after id full_round",
      THEN conjunct2, THEN conjunct2, THEN conjunct2] reachf
  have all: "\<forall>e \<in> set (server_rooms (server_after id full_round)).
         (currentQuestion (snd e) \<noteq> None) = question_dispatched (snd e)"
    by (rule mp)
  from full_round_rooms obtain e where one: "server_rooms (server_after id full_round) = [e]"
    by auto
  with all have fields: "map (\<lambda>e. (currentQuestion (snd e) \<noteq> None) = question_dispatched (snd e))
          (server_rooms (server_after id full_round)) = [True]"
    by simp
  have g: "map_option gameState (map_of (server_rooms (server_after id full_round)) ''COOL-1234'')
       = Some ROUND_END"
    by (simp add: rf gs)
  have q: "map_option currentQuestion (map_of (server_rooms (server_after id full_round)) ''COOL-1234'')
       = Some (Some (triviaQuestions ! 4))"
    by (simp add: rf cqf)
  show ?thesis
    by (intro conjI) (fact full_round_run g q hist reach0 round_rest_run fields ending)+
qed

text \<open>
  At the end of that game the room is in state \<open>ROUND_END\<close> and \<open>currentQuestion\<close> still
  holds the fifth question.
\<close>

theorem currentQuestion_after_round_end_counterexample:
  "map_option gameState (room_after id full_round ''COOL-1234'') = Some ROUND_END
   \<and> map_option currentQuestion (room_after id full_round ''COOL-1234'')
       = Some (Some \<lparr>q = ''How many hearts does an octopus have?'', a = ''3'',
                      choices = [''1'', ''2'', ''3'', ''4'']\<rparr>)"
  unfolding full_round_room by (simp add: triviaQuestions_def)

end
